theory Spec2Isabelle
  imports Complex_Main "HOL-Library.AList"
begin

section \<open>Values, rows and declared schema\<close>

text \<open>
  The module \<^verbatim>\<open>src/config/db.js\<close> talks to SQLite through the callback driver
  \<^verbatim>\<open>sqlite3\<close>. A stored or returned value is one of SQLite's storage classes; a row
  is the list of its named values, in column order.
\<close>

datatype val = Null | Integer int | Real real | Text string

type_synonym row = "(string \<times> val) list"

definition col :: "row \<Rightarrow> string \<Rightarrow> val" where
  "col r c = (case map_of r c of None \<Rightarrow> Null | Some v \<Rightarrow> v)"

datatype sqltype = INTEGER | TEXT | REAL

datatype on_delete = NO_ACTION | CASCADE

record column =
  col_name :: string
  col_type :: sqltype
  col_notnull :: bool
  col_default :: "val option"
  col_pk :: bool
  col_unique :: bool

record foreign_key =
  fk_column :: string
  fk_parent :: string
  fk_parent_column :: string
  fk_on_delete :: on_delete

record table_decl =
  tbl_name :: string
  tbl_columns :: "column list"
  tbl_primary_key :: "string list"
  tbl_foreign_keys :: "foreign_key list"

text \<open>Shorthands for the column and key clauses the \<^verbatim>\<open>CREATE TABLE\<close> texts use.\<close>

definition pk_autoincrement :: "string \<Rightarrow> column" where
  "pk_autoincrement n =
     \<lparr>col_name = n, col_type = INTEGER, col_notnull = False, col_default = None,
      col_pk = True, col_unique = False\<rparr>"

definition not_null :: "string \<Rightarrow> sqltype \<Rightarrow> column" where
  "not_null n t =
     \<lparr>col_name = n, col_type = t, col_notnull = True, col_default = None,
      col_pk = False, col_unique = False\<rparr>"

definition unique_not_null :: "string \<Rightarrow> sqltype \<Rightarrow> column" where
  "unique_not_null n t =
     \<lparr>col_name = n, col_type = t, col_notnull = True, col_default = None,
      col_pk = False, col_unique = True\<rparr>"

definition not_null_default :: "string \<Rightarrow> sqltype \<Rightarrow> val \<Rightarrow> column" where
  "not_null_default n t d =
     \<lparr>col_name = n, col_type = t, col_notnull = True, col_default = Some d,
      col_pk = False, col_unique = False\<rparr>"

definition nullable :: "string \<Rightarrow> sqltype \<Rightarrow> column" where
  "nullable n t =
     \<lparr>col_name = n, col_type = t, col_notnull = False, col_default = None,
      col_pk = False, col_unique = False\<rparr>"

definition references :: "string \<Rightarrow> string \<Rightarrow> string \<Rightarrow> foreign_key" where
  "references c p pc =
     \<lparr>fk_column = c, fk_parent = p, fk_parent_column = pc, fk_on_delete = NO_ACTION\<rparr>"

definition references_cascade :: "string \<Rightarrow> string \<Rightarrow> string \<Rightarrow> foreign_key" where
  "references_cascade c p pc =
     \<lparr>fk_column = c, fk_parent = p, fk_parent_column = pc, fk_on_delete = CASCADE\<rparr>"

subsection \<open>The six tables of \<^verbatim>\<open>initDb\<close> (db.js lines 119-187)\<close>

definition users_table :: table_decl where
  "users_table =
     \<lparr>tbl_name = ''users'',
      tbl_columns =
        [pk_autoincrement ''id'',
         unique_not_null ''username'' TEXT,
         not_null ''password_hash'' TEXT,
         not_null ''display_name'' TEXT,
         not_null_default ''is_admin'' INTEGER (Integer 0),
         not_null ''created_at'' TEXT],
      tbl_primary_key = [],
      tbl_foreign_keys = []\<rparr>"

definition series_table :: table_decl where
  "series_table =
     \<lparr>tbl_name = ''series'',
      tbl_columns =
        [pk_autoincrement ''id'',
         unique_not_null ''name'' TEXT,
         nullable ''description'' TEXT,
         not_null ''start_date_utc'' TEXT,
         nullable ''end_date_utc'' TEXT,
         not_null_default ''is_locked'' INTEGER (Integer 0),
         not_null ''created_by'' INTEGER,
         not_null ''created_at'' TEXT],
      tbl_primary_key = [],
      tbl_foreign_keys = [references ''created_by'' ''users'' ''id'']\<rparr>"

definition series_members_table :: table_decl where
  "series_members_table =
     \<lparr>tbl_name = ''series_members'',
      tbl_columns =
        [not_null ''series_id'' INTEGER,
         not_null ''user_id'' INTEGER,
         not_null ''joined_at'' TEXT],
      tbl_primary_key = [''series_id'', ''user_id''],
      tbl_foreign_keys =
        [references_cascade ''series_id'' ''series'' ''id'',
         references_cascade ''user_id'' ''users'' ''id'']\<rparr>"

definition matches_table :: table_decl where
  "matches_table =
     \<lparr>tbl_name = ''matches'',
      tbl_columns =
        [pk_autoincrement ''id'',
         not_null ''series_id'' INTEGER,
         not_null ''name'' TEXT,
         not_null ''sport'' TEXT,
         not_null ''team_a'' TEXT,
         not_null ''team_b'' TEXT,
         not_null ''start_time_utc'' TEXT,
         not_null_default ''cutoff_minutes_before'' INTEGER (Integer 30),
         not_null_default ''entry_points'' REAL (Real 50),
         not_null_default ''status'' TEXT (Text ''scheduled''),
         nullable ''winner'' TEXT,
         nullable ''admin_declared_at'' TEXT],
      tbl_primary_key = [],
      tbl_foreign_keys = [references_cascade ''series_id'' ''series'' ''id'']\<rparr>"

definition predictions_table :: table_decl where
  "predictions_table =
     \<lparr>tbl_name = ''predictions'',
      tbl_columns =
        [not_null ''match_id'' INTEGER,
         not_null ''user_id'' INTEGER,
         not_null ''predicted_team'' TEXT,
         not_null ''predicted_at_utc'' TEXT,
         not_null_default ''locked'' INTEGER (Integer 0)],
      tbl_primary_key = [''match_id'', ''user_id''],
      tbl_foreign_keys =
        [references_cascade ''match_id'' ''matches'' ''id'',
         references_cascade ''user_id'' ''users'' ''id'']\<rparr>"

definition points_ledger_table :: table_decl where
  "points_ledger_table =
     \<lparr>tbl_name = ''points_ledger'',
      tbl_columns =
        [pk_autoincrement ''id'',
         not_null ''user_id'' INTEGER,
         not_null ''match_id'' INTEGER,
         not_null ''series_id'' INTEGER,
         not_null ''points'' REAL,
         not_null ''reason'' TEXT,
         not_null ''created_at'' TEXT],
      tbl_primary_key = [],
      tbl_foreign_keys =
        [references ''user_id'' ''users'' ''id'',
         references ''match_id'' ''matches'' ''id'',
         references ''series_id'' ''series'' ''id'']\<rparr>"

definition schema_tables :: "table_decl list" where
  "schema_tables =
     [users_table, series_table, series_members_table, matches_table,
      predictions_table, points_ledger_table]"



section \<open>SQL texts\<close>

text \<open>
  The statements the module issues, by shape. An SQL text is its first statement and the
  statements after it: \<^verbatim>\<open>run\<close>, \<^verbatim>\<open>get\<close> and \<^verbatim>\<open>all\<close> of the driver prepare the
  first statement only, \<^verbatim>\<open>exec\<close> runs all of them.
\<close>

datatype stmt =
    PRAGMA_foreign_keys_ON
  | CREATE_TABLE_IF_NOT_EXISTS table_decl
  | SELECT_COUNT string
  | INSERT_INTO_users
  | PRAGMA_table_info string
  | ALTER_TABLE_ADD_COLUMN string string
  | UPDATE_points_ledger_series_id
  | CREATE_INDEX_IF_NOT_EXISTS string string "string list"

datatype sql = Sql stmt "stmt list"

fun statements :: "sql \<Rightarrow> stmt list" where
  "statements (Sql st rest) = st # rest"

fun first_statement :: "sql \<Rightarrow> stmt" where
  "first_statement (Sql st rest) = st"

section \<open>The promise wrapper (db.js lines 68-102)\<close>

text \<open>
  A driver error is the \<^verbatim>\<open>Error\<close> object the driver hands to a callback: its code and
  message. A promise of the wrapper fails with a thrown value. \<open>Raw e\<close> is the driver's
  own error object \<open>e\<close>; \<open>DatabaseError e\<close> is an error of a wrapping class around \<open>e\<close>,
  which the specification names and which no definition below constructs.
\<close>

datatype driver_error = Driver_Error string string

datatype thrown = Raw driver_error | DatabaseError driver_error

record run_result =
  changes :: nat
  lastID :: nat

text \<open>
  The native \<^verbatim>\<open>Database\<close> object of the driver, over a driver state \<open>'s\<close>: each
  method returns what it passes to its callback (\<open>None\<close> for a \<^verbatim>\<open>null\<close> error) and the
  driver state afterwards. For \<open>native_run\<close> the second component is the callback's
  \<^verbatim>\<open>this\<close>. \<open>handle\<close> is the identity of the object.
\<close>

record ('q, 's) native =
  handle :: nat
  native_run :: "'q \<Rightarrow> val list \<Rightarrow> 's \<Rightarrow> (driver_error option \<times> run_result) \<times> 's"
  native_get :: "'q \<Rightarrow> val list \<Rightarrow> 's \<Rightarrow> (driver_error option \<times> row option) \<times> 's"
  native_all :: "'q \<Rightarrow> val list \<Rightarrow> 's \<Rightarrow> (driver_error option \<times> row list) \<times> 's"
  native_exec :: "'q \<Rightarrow> 's \<Rightarrow> driver_error option \<times> 's"
  native_close :: "'s \<Rightarrow> driver_error option \<times> 's"

text \<open>
  A settled promise is \<open>Inl\<close> of the thrown value or \<open>Inr\<close> of the result. The object
  \<^verbatim>\<open>wrapDb(db)\<close> returns has the five methods below and the fields \<^verbatim>\<open>raw\<close> and
  \<^verbatim>\<open>file\<close> (\<open>file_path\<close> here); the parameters default to \<^verbatim>\<open>[]\<close> in the source, so a caller without
  parameters passes \<open>[]\<close>. \<open>dbPath\<close> is the module constant the object literal reads.
\<close>

type_synonym ('a, 's) promise = "'s \<Rightarrow> (thrown + 'a) \<times> 's"

record ('q, 's) wrapped =
  run :: "'q \<Rightarrow> val list \<Rightarrow> (run_result, 's) promise"
  get :: "'q \<Rightarrow> val list \<Rightarrow> (row option, 's) promise"
  all :: "'q \<Rightarrow> val list \<Rightarrow> (row list, 's) promise"
  exec :: "'q \<Rightarrow> (unit, 's) promise"
  close :: "(unit, 's) promise"
  raw :: "('q, 's) native"
  file_path :: string

definition settle :: "driver_error option \<Rightarrow> 'a \<Rightarrow> thrown + 'a" where
  "settle err v = (case err of Some e \<Rightarrow> Inl (Raw e) | None \<Rightarrow> Inr v)"

definition wrapDb :: "string \<Rightarrow> ('q, 's) native \<Rightarrow> ('q, 's) wrapped" where
  "wrapDb dbPath db =
     \<lparr>run = (\<lambda>sql params s.
        case native_run db sql params s of
          ((err, this), s') \<Rightarrow>
            (settle err \<lparr>changes = changes this, lastID = lastID this\<rparr>, s')),
      get = (\<lambda>sql params s.
        case native_get db sql params s of ((err, row), s') \<Rightarrow> (settle err row, s')),
      all = (\<lambda>sql params s.
        case native_all db sql params s of ((err, rows), s') \<Rightarrow> (settle err rows, s')),
      exec = (\<lambda>sql s.
        case native_exec db sql s of (err, s') \<Rightarrow> (settle err (), s')),
      close = (\<lambda>s.
        case native_close db s of (err, s') \<Rightarrow> (settle err (), s')),
      raw = db,
      file_path = dbPath\<rparr>"

section \<open>The driver and the module state\<close>

text \<open>
  The driver module \<^verbatim>\<open>sqlite3\<close> is a parameter: \<open>new_Database\<close> is
  \<^verbatim>\<open>new sqlite3.Database(path)\<close> and returns the handle of the new native object, the
  other fields are the methods of the native object with a given handle. \<open>'s\<close> is the
  state of the driver (its connections and the database file).
\<close>

record 's sqlite3 =
  new_Database :: "string \<Rightarrow> 's \<Rightarrow> nat \<times> 's"
  db_run :: "nat \<Rightarrow> sql \<Rightarrow> val list \<Rightarrow> 's \<Rightarrow> (driver_error option \<times> run_result) \<times> 's"
  db_get :: "nat \<Rightarrow> sql \<Rightarrow> val list \<Rightarrow> 's \<Rightarrow> (driver_error option \<times> row option) \<times> 's"
  db_all :: "nat \<Rightarrow> sql \<Rightarrow> val list \<Rightarrow> 's \<Rightarrow> (driver_error option \<times> row list) \<times> 's"
  db_exec :: "nat \<Rightarrow> sql \<Rightarrow> 's \<Rightarrow> driver_error option \<times> 's"
  db_close :: "nat \<Rightarrow> 's \<Rightarrow> driver_error option \<times> 's"

text \<open>What the module does to the outside, in order.\<close>

datatype call =
    New_Database string
  | Exec_without_callback nat sql
  | Exec_call nat sql
  | Run_call nat sql "val list"
  | Get_call nat sql "val list"
  | All_call nat sql "val list"
  | Close_call nat
  | Bcrypt_hash string nat
  | Console_log string

text \<open>
  The module's variables: \<open>dbPath\<close> is fixed when the module loads; \<open>dbInstance\<close> is
  the cached wrapper (\<open>None\<close> for \<^verbatim>\<open>null\<close>), kept as the handle of the native object it
  was built around, since the wrapper's methods are functions on this very state.
\<close>

record 's state =
  dbPath :: string
  dbInstance :: "nat option"
  calls :: "call list"
  driver :: 's

definition Database_object :: "'s sqlite3 \<Rightarrow> nat \<Rightarrow> (sql, 's state) native" where
  "Database_object drv h =
     \<lparr>handle = h,
      native_run = (\<lambda>q ps s.
        case db_run drv h q ps (driver s) of
          (r, d) \<Rightarrow> (r, s\<lparr>calls := calls s @ [Run_call h q ps], driver := d\<rparr>)),
      native_get = (\<lambda>q ps s.
        case db_get drv h q ps (driver s) of
          (r, d) \<Rightarrow> (r, s\<lparr>calls := calls s @ [Get_call h q ps], driver := d\<rparr>)),
      native_all = (\<lambda>q ps s.
        case db_all drv h q ps (driver s) of
          (r, d) \<Rightarrow> (r, s\<lparr>calls := calls s @ [All_call h q ps], driver := d\<rparr>)),
      native_exec = (\<lambda>q s.
        case db_exec drv h q (driver s) of
          (r, d) \<Rightarrow> (r, s\<lparr>calls := calls s @ [Exec_call h q], driver := d\<rparr>)),
      native_close = (\<lambda>s.
        case db_close drv h (driver s) of
          (r, d) \<Rightarrow> (r, s\<lparr>calls := calls s @ [Close_call h], driver := d\<rparr>))\<rparr>"

subsection \<open>Promises in sequence\<close>

text \<open>
  \<^verbatim>\<open>await p\<close> followed by the rest of an \<^verbatim>\<open>async\<close> function: a rejected \<open>p\<close> rejects
  the function with the same value and skips the rest; the state keeps what was done.
\<close>

definition await :: "('a, 's) promise \<Rightarrow> ('a \<Rightarrow> ('b, 's) promise) \<Rightarrow> ('b, 's) promise" where
  "await p k s = (case p s of (Inl e, s') \<Rightarrow> (Inl e, s') | (Inr v, s') \<Rightarrow> k v s')"

definition resolve :: "'a \<Rightarrow> ('a, 's) promise" where
  "resolve v s = (Inr v, s)"

definition console_log :: "string \<Rightarrow> (unit, 's state) promise" where
  "console_log msg s = (Inr (), s\<lparr>calls := calls s @ [Console_log msg]\<rparr>)"

subsection \<open>\<^verbatim>\<open>getDb\<close> (db.js lines 104-112)\<close>

definition pragma_foreign_keys :: sql where
  "pragma_foreign_keys = Sql PRAGMA_foreign_keys_ON []"

text \<open>
  The \<^verbatim>\<open>exec\<close> of line 108 has no callback and is not awaited: what the driver would
  report (\<open>err\<close> below) reaches no continuation of the module.
\<close>

definition getDb :: "'s sqlite3 \<Rightarrow> ((sql, 's state) wrapped, 's state) promise" where
  "getDb drv s =
     (case dbInstance s of
        None \<Rightarrow>
          (case new_Database drv (dbPath s) (driver s) of
             (native, d1) \<Rightarrow>
               (case db_exec drv native pragma_foreign_keys d1 of
                  (err, d2) \<Rightarrow>
                    (Inr (wrapDb (dbPath s) (Database_object drv native)),
                     s\<lparr>dbInstance := Some native,
                       calls := calls s @
                         [New_Database (dbPath s),
                          Exec_without_callback native pragma_foreign_keys],
                       driver := d2\<rparr>)))
      | Some native \<Rightarrow> (Inr (wrapDb (dbPath s) (Database_object drv native)), s))"

subsection \<open>\<^verbatim>\<open>ensurePointsLedgerSchema\<close> (db.js lines 12-47)\<close>

definition table_info_points_ledger :: sql where
  "table_info_points_ledger = Sql (PRAGMA_table_info ''points_ledger'') []"

definition add_series_id :: sql where
  "add_series_id = Sql (ALTER_TABLE_ADD_COLUMN ''points_ledger'' ''series_id'') []"

definition add_match_id :: sql where
  "add_match_id = Sql (ALTER_TABLE_ADD_COLUMN ''points_ledger'' ''match_id'') []"

definition backfill_series_id :: sql where
  "backfill_series_id = Sql UPDATE_points_ledger_series_id []"

definition index_series_user :: sql where
  "index_series_user =
     Sql (CREATE_INDEX_IF_NOT_EXISTS ''idx_points_ledger_series_user'' ''points_ledger''
            [''series_id'', ''user_id'']) []"

definition index_match :: sql where
  "index_match =
     Sql (CREATE_INDEX_IF_NOT_EXISTS ''idx_points_ledger_match'' ''points_ledger''
            [''match_id'']) []"

text \<open>
  \<^verbatim>\<open>cols.map(c => c.name)\<close> reads a property that may be missing (\<open>None\<close>);
  \<^verbatim>\<open>names.includes(x)\<close> looks for the string \<open>x\<close>.
\<close>

definition includes_name :: "val option list \<Rightarrow> string \<Rightarrow> bool" where
  "includes_name names x = List.member names (Some (Text x))"

definition ensurePointsLedgerSchema ::
    "(sql, 's state) wrapped \<Rightarrow> (unit, 's state) promise" where
  "ensurePointsLedgerSchema db =
     await (all db table_info_points_ledger []) (\<lambda>cols.
       let names = map (\<lambda>c. map_of c ''name'') cols;
           hasSeriesId = includes_name names ''series_id'';
           hasMatchId = includes_name names ''match_id''
       in
       await (if \<not> hasSeriesId
              then await (run db add_series_id [])
                     (\<lambda>_. console_log ''[Migration] Added points_ledger.series_id'')
              else resolve ()) (\<lambda>_.
       await (if \<not> hasMatchId
              then await (run db add_match_id [])
                     (\<lambda>_. console_log ''[Migration] Added points_ledger.match_id'')
              else resolve ()) (\<lambda>_.
       await (run db backfill_series_id []) (\<lambda>_.
       await (run db index_series_user []) (\<lambda>_.
       await (run db index_match []) (\<lambda>_.
       console_log ''[Migration] points_ledger schema ensured and backfilled.''))))))"

subsection \<open>\<^verbatim>\<open>initDb\<close> (db.js lines 114-205)\<close>

text \<open>
  What \<^verbatim>\<open>initDb\<close> reads from its surroundings: the environment variables, the result
  of \<^verbatim>\<open>bcrypt.hash(password, rounds)\<close> (salted, so it is a parameter), and
  \<^verbatim>\<open>new Date().toISOString()\<close>.
\<close>

record runtime =
  env :: "string \<Rightarrow> string option"
  bcrypt_hash :: "string \<Rightarrow> nat \<Rightarrow> string"
  now :: string

text \<open>\<^verbatim>\<open>a || b\<close> on an environment variable: a missing or empty \<open>a\<close> gives \<open>b\<close>.\<close>

definition or_else :: "string option \<Rightarrow> string \<Rightarrow> string" where
  "or_else a b = (case a of None \<Rightarrow> b | Some x \<Rightarrow> if x = [] then b else x)"

definition hash :: "runtime \<Rightarrow> string \<Rightarrow> nat \<Rightarrow> (string, 's state) promise" where
  "hash rt password rounds s =
     (Inr (bcrypt_hash rt password rounds),
      s\<lparr>calls := calls s @ [Bcrypt_hash password rounds]\<rparr>)"

definition schema_script :: sql where
  "schema_script = Sql PRAGMA_foreign_keys_ON (map CREATE_TABLE_IF_NOT_EXISTS schema_tables)"

definition count_users :: sql where
  "count_users = Sql (SELECT_COUNT ''users'') []"

definition insert_user :: sql where
  "insert_user = Sql INSERT_INTO_users []"

text \<open>
  \<^verbatim>\<open>!count || count.c === 0\<close>: no row, or a row whose \<^verbatim>\<open>c\<close> is the number zero
  (JavaScript has one number type).
\<close>

definition no_users :: "row option \<Rightarrow> bool" where
  "no_users count =
     (case count of
        None \<Rightarrow> True
      | Some r \<Rightarrow> map_of r ''c'' = Some (Integer 0) \<or> map_of r ''c'' = Some (Real 0))"

definition bootstrap_admin ::
    "runtime \<Rightarrow> (sql, 's state) wrapped \<Rightarrow> (unit, 's state) promise" where
  "bootstrap_admin rt db =
     (let username = or_else (env rt ''BOOTSTRAP_ADMIN_USERNAME'') ''admin'';
          password = or_else (env rt ''BOOTSTRAP_ADMIN_PASSWORD'') ''Admin@123'';
          displayName = or_else (env rt ''BOOTSTRAP_ADMIN_DISPLAY_NAME'') ''Admin''
      in
      await (hash rt password 10) (\<lambda>hash.
      await (run db insert_user
               [Text username, Text hash, Text displayName, Integer 1, Text (now rt)]) (\<lambda>_.
      console_log (''Bootstrapped admin user: '' @ username))))"

definition initDb :: "'s sqlite3 \<Rightarrow> runtime \<Rightarrow> (unit, 's state) promise" where
  "initDb drv rt =
     await (getDb drv) (\<lambda>db.
     await (exec db schema_script) (\<lambda>_.
     await (get db count_users []) (\<lambda>count.
     await (if no_users count then bootstrap_admin rt db else resolve ()) (\<lambda>_.
     ensurePointsLedgerSchema db))))"

subsection \<open>What a client of the module can do\<close>

text \<open>
  The module exports \<^verbatim>\<open>getDb\<close> and \<^verbatim>\<open>initDb\<close>; a client reaches the wrapper only
  through \<^verbatim>\<open>getDb\<close>, and then calls its methods.
\<close>

datatype action =
    GetDb
  | InitDb runtime
  | Run_method sql "val list"
  | Get_method sql "val list"
  | All_method sql "val list"
  | Exec_method sql
  | Close_method

fun perform :: "'s sqlite3 \<Rightarrow> action \<Rightarrow> 's state \<Rightarrow> 's state" where
  "perform drv GetDb s = snd (getDb drv s)"
| "perform drv (InitDb rt) s = snd (initDb drv rt s)"
| "perform drv (Run_method q ps) s = snd (await (getDb drv) (\<lambda>db. run db q ps) s)"
| "perform drv (Get_method q ps) s = snd (await (getDb drv) (\<lambda>db. get db q ps) s)"
| "perform drv (All_method q ps) s = snd (await (getDb drv) (\<lambda>db. all db q ps) s)"
| "perform drv (Exec_method q) s = snd (await (getDb drv) (\<lambda>db. exec db q) s)"
| "perform drv Close_method s = snd (await (getDb drv) (\<lambda>db. close db) s)"

definition performs :: "'s sqlite3 \<Rightarrow> action list \<Rightarrow> 's state \<Rightarrow> 's state" where
  "performs drv acts s = fold (perform drv) acts s"

section \<open>SQLite behind the driver\<close>

text \<open>
  The meaning of the statements above, as SQLite gives it. The database file holds the
  tables (declaration, rows, and the largest rowid handed out so far) and the indexes; a
  connection has its own settings and counters. Not part of the model: conversions between
  storage classes by column affinity, and foreign-key checks on changed rows (the module
  neither deletes rows nor changes a parent key).
\<close>

record table =
  decl :: table_decl
  rows :: "row list"
  seq :: nat

record index =
  idx_name :: string
  idx_table :: string
  idx_columns :: "string list"

record database =
  tables :: "table list"
  indexes :: "index list"

record connection =
  is_open :: bool
  foreign_keys :: bool
  conn_changes :: nat
  last_insert_rowid :: nat

record sqlite_state =
  connections :: "connection list"
  disk :: database

definition find_table :: "string \<Rightarrow> database \<Rightarrow> table option" where
  "find_table n d = find (\<lambda>t. tbl_name (decl t) = n) (tables d)"

text \<open>A name denotes the first table of that name, for reading and for writing.\<close>

fun update_first :: "('a \<Rightarrow> bool) \<Rightarrow> ('a \<Rightarrow> 'a) \<Rightarrow> 'a list \<Rightarrow> 'a list" where
  "update_first P f [] = []"
| "update_first P f (x # xs) = (if P x then f x # xs else x # update_first P f xs)"

definition update_table :: "string \<Rightarrow> (table \<Rightarrow> table) \<Rightarrow> database \<Rightarrow> database" where
  "update_table n f d =
     d\<lparr>tables := update_first (\<lambda>t. tbl_name (decl t) = n) f (tables d)\<rparr>"

definition column_names :: "table \<Rightarrow> string list" where
  "column_names t = map col_name (tbl_columns (decl t))"

definition has_column :: "table \<Rightarrow> string \<Rightarrow> bool" where
  "has_column t c = List.member (column_names t) c"

definition find_column :: "table \<Rightarrow> string \<Rightarrow> column option" where
  "find_column t c = find (\<lambda>x. col_name x = c) (tbl_columns (decl t))"

definition has_index :: "string \<Rightarrow> database \<Rightarrow> bool" where
  "has_index n d = list_ex (\<lambda>i. idx_name i = n) (indexes d)"

definition misuse :: driver_error where
  "misuse = Driver_Error ''SQLITE_MISUSE'' ''Database is closed''"

definition range_error :: driver_error where
  "range_error = Driver_Error ''SQLITE_RANGE'' ''column index out of range''"

definition no_such_table :: "string \<Rightarrow> driver_error" where
  "no_such_table n = Driver_Error ''SQLITE_ERROR'' (''no such table: '' @ n)"

definition no_such_column :: "string \<Rightarrow> driver_error" where
  "no_such_column c = Driver_Error ''SQLITE_ERROR'' (''no such column: '' @ c)"

definition duplicate_column :: "string \<Rightarrow> driver_error" where
  "duplicate_column c = Driver_Error ''SQLITE_ERROR'' (''duplicate column name: '' @ c)"

definition not_null_failed :: "string \<Rightarrow> string \<Rightarrow> driver_error" where
  "not_null_failed t c =
     Driver_Error ''SQLITE_CONSTRAINT'' (''NOT NULL constraint failed: '' @ t @ ''.'' @ c)"

definition unique_failed :: "string \<Rightarrow> string \<Rightarrow> driver_error" where
  "unique_failed t c =
     Driver_Error ''SQLITE_CONSTRAINT'' (''UNIQUE constraint failed: '' @ t @ ''.'' @ c)"

subsection \<open>Statements\<close>

text \<open>\<^verbatim>\<open>CREATE TABLE IF NOT EXISTS\<close>: nothing when a table of that name exists.\<close>

definition create_table :: "table_decl \<Rightarrow> database \<Rightarrow> database" where
  "create_table td d =
     (case find_table (tbl_name td) d of
        Some t \<Rightarrow> d
      | None \<Rightarrow> d\<lparr>tables := tables d @ [\<lparr>decl = td, rows = [], seq = 0\<rparr>]\<rparr>)"

text \<open>\<^verbatim>\<open>SELECT COUNT(*) as c FROM t\<close>: always one row.\<close>

definition select_count :: "string \<Rightarrow> database \<Rightarrow> driver_error + row list" where
  "select_count n d =
     (case find_table n d of
        None \<Rightarrow> Inl (no_such_table n)
      | Some t \<Rightarrow> Inr [ [(''c'', Integer (int (length (rows t))))]])"

text \<open>
  \<^verbatim>\<open>PRAGMA table_info(t)\<close>: one row per column, no row (and no error) for a missing
  table. The default-value column of the result, which the module does not read, is left
  out.
\<close>

definition type_name :: "sqltype \<Rightarrow> string" where
  "type_name t = (case t of INTEGER \<Rightarrow> ''INTEGER'' | TEXT \<Rightarrow> ''TEXT'' | REAL \<Rightarrow> ''REAL'')"

definition pk_position :: "table_decl \<Rightarrow> column \<Rightarrow> nat" where
  "pk_position td c =
     (if col_pk c then 1
      else if List.member (tbl_primary_key td) (col_name c)
      then Suc (length (takeWhile (\<lambda>n. n \<noteq> col_name c) (tbl_primary_key td)))
      else 0)"

definition info_row :: "table_decl \<Rightarrow> nat \<times> column \<Rightarrow> row" where
  "info_row td ic =
     [(''cid'', Integer (int (fst ic))),
      (''name'', Text (col_name (snd ic))),
      (''type'', Text (type_name (col_type (snd ic)))),
      (''notnull'', Integer (if col_notnull (snd ic) then 1 else 0)),
      (''pk'', Integer (int (pk_position td (snd ic))))]"

definition table_info :: "string \<Rightarrow> database \<Rightarrow> row list" where
  "table_info n d =
     (case find_table n d of
        None \<Rightarrow> []
      | Some t \<Rightarrow> map (info_row (decl t)) (enumerate 0 (tbl_columns (decl t))))"

text \<open>\<^verbatim>\<open>ALTER TABLE t ADD COLUMN c INTEGER\<close>: existing rows read \<^verbatim>\<open>NULL\<close> in it.\<close>

definition add_nullable :: "string \<Rightarrow> table \<Rightarrow> table" where
  "add_nullable c t =
     t\<lparr>decl := (decl t)\<lparr>tbl_columns := tbl_columns (decl t) @ [nullable c INTEGER]\<rparr>,
       rows := map (\<lambda>r. r @ [(c, Null)]) (rows t)\<rparr>"

definition add_column :: "string \<Rightarrow> string \<Rightarrow> database \<Rightarrow> driver_error + database" where
  "add_column n c d =
     (case find_table n d of
        None \<Rightarrow> Inl (no_such_table n)
      | Some t \<Rightarrow>
          if has_column t c then Inl (duplicate_column c)
          else Inr (update_table n (add_nullable c) d))"

text \<open>
  \<^verbatim>\<open>INSERT INTO users (username, password_hash, display_name, is_admin, created_at)
  VALUES (?,?,?,?,?)\<close> with bound parameters; an unbound parameter is \<^verbatim>\<open>NULL\<close>.
\<close>

definition insert_columns :: "string list" where
  "insert_columns =
     [''username'', ''password_hash'', ''display_name'', ''is_admin'', ''created_at'']"

definition new_value :: "(string \<times> val) list \<Rightarrow> nat \<Rightarrow> column \<Rightarrow> val" where
  "new_value bound rowid c =
     (case map_of bound (col_name c) of
        Some v \<Rightarrow> v
      | None \<Rightarrow>
          if col_pk c then Integer (int rowid)
          else (case col_default c of Some v \<Rightarrow> v | None \<Rightarrow> Null))"

definition new_row :: "val list \<Rightarrow> table \<Rightarrow> row" where
  "new_row params t =
     (let rowid = Suc (seq t);
          bound = zip insert_columns (params @ replicate (5 - length params) Null)
      in map (\<lambda>c. (col_name c, new_value bound rowid c)) (tbl_columns (decl t)))"

definition insert_users :: "val list \<Rightarrow> database \<Rightarrow> driver_error + nat \<times> database" where
  "insert_users params d =
     (case find_table ''users'' d of
        None \<Rightarrow> Inl (no_such_table ''users'')
      | Some t \<Rightarrow>
          (case find (\<lambda>c. \<not> has_column t c) insert_columns of
             Some c \<Rightarrow> Inl (no_such_column c)
           | None \<Rightarrow>
               let r = new_row params t in
               (case find (\<lambda>c. col_notnull c \<and> col r (col_name c) = Null)
                       (tbl_columns (decl t)) of
                  Some c \<Rightarrow> Inl (not_null_failed ''users'' (col_name c))
                | None \<Rightarrow>
                    (case find (\<lambda>c. (col_unique c \<or> col_pk c) \<and> col r (col_name c) \<noteq> Null \<and>
                                 list_ex (\<lambda>r'. col r' (col_name c) = col r (col_name c)) (rows t))
                            (tbl_columns (decl t)) of
                       Some c \<Rightarrow> Inl (unique_failed ''users'' (col_name c))
                     | None \<Rightarrow>
                         Inr (Suc (seq t),
                              update_table ''users''
                                (\<lambda>t. t\<lparr>rows := rows t @ [r], seq := Suc (seq t)\<rparr>) d)))))"

text \<open>
  The backfill (db.js lines 31-40):
  \<^verbatim>\<open>UPDATE points_ledger SET series_id = (SELECT m.series_id FROM matches m
  WHERE m.id = points_ledger.match_id)
  WHERE (series_id IS NULL OR series_id = '') AND match_id IS NOT NULL\<close>.
  A comparison with \<^verbatim>\<open>NULL\<close> is never true; the scalar subquery is the first match
  found, or \<^verbatim>\<open>NULL\<close> when there is none.
\<close>

fun sql_eq :: "val \<Rightarrow> val \<Rightarrow> bool" where
  "sql_eq (Integer i) (Integer j) = (i = j)"
| "sql_eq (Integer i) (Real y) = (of_int i = y)"
| "sql_eq (Real x) (Integer j) = (x = of_int j)"
| "sql_eq (Real x) (Real y) = (x = y)"
| "sql_eq (Text a) (Text b) = (a = b)"
| "sql_eq _ _ = False"

definition match_series_id :: "row list \<Rightarrow> val \<Rightarrow> val" where
  "match_series_id ms match_id =
     (case find (\<lambda>m. sql_eq (col m ''id'') match_id) ms of
        None \<Rightarrow> Null
      | Some m \<Rightarrow> col m ''series_id'')"

definition needs_backfill :: "row \<Rightarrow> bool" where
  "needs_backfill r =
     ((col r ''series_id'' = Null \<or> sql_eq (col r ''series_id'') (Text []))
      \<and> col r ''match_id'' \<noteq> Null)"

definition backfill_row :: "row list \<Rightarrow> row \<Rightarrow> row" where
  "backfill_row ms r =
     (if needs_backfill r
      then AList.update ''series_id'' (match_series_id ms (col r ''match_id'')) r
      else r)"

definition is_notnull :: "table \<Rightarrow> string \<Rightarrow> bool" where
  "is_notnull t c = (case find_column t c of None \<Rightarrow> False | Some x \<Rightarrow> col_notnull x)"

definition update_series_id :: "database \<Rightarrow> driver_error + nat \<times> database" where
  "update_series_id d =
     (case find_table ''points_ledger'' d of
        None \<Rightarrow> Inl (no_such_table ''points_ledger'')
      | Some pl \<Rightarrow>
          (case find_table ''matches'' d of
             None \<Rightarrow> Inl (no_such_table ''matches'')
           | Some m \<Rightarrow>
               if \<not> has_column pl ''series_id'' then Inl (no_such_column ''series_id'')
               else if \<not> has_column m ''series_id'' then Inl (no_such_column ''m.series_id'')
               else if \<not> has_column m ''id'' then Inl (no_such_column ''m.id'')
               else if \<not> has_column pl ''match_id''
                 then Inl (no_such_column ''points_ledger.match_id'')
               else if is_notnull pl ''series_id'' \<and>
                       list_ex (\<lambda>r. needs_backfill r \<and>
                                  match_series_id (rows m) (col r ''match_id'') = Null) (rows pl)
                 then Inl (not_null_failed ''points_ledger'' ''series_id'')
               else Inr (length (filter needs_backfill (rows pl)),
                         update_table ''points_ledger''
                           (\<lambda>t. t\<lparr>rows := map (backfill_row (rows m)) (rows t)\<rparr>) d)))"

text \<open>
  \<^verbatim>\<open>CREATE INDEX IF NOT EXISTS n ON t(cols)\<close>: the table must exist; nothing when an
  index of that name exists.
\<close>

definition create_index ::
    "string \<Rightarrow> string \<Rightarrow> string list \<Rightarrow> database \<Rightarrow> driver_error + database" where
  "create_index n t cols d =
     (case find_table t d of
        None \<Rightarrow> Inl (no_such_table t)
      | Some tb \<Rightarrow>
          if has_index n d then Inr d
          else (case find (\<lambda>c. \<not> has_column tb c) cols of
                  Some c \<Rightarrow> Inl (no_such_column c)
                | None \<Rightarrow>
                    Inr (d\<lparr>indexes := indexes d @
                            [\<lparr>idx_name = n, idx_table = t, idx_columns = cols\<rparr>]\<rparr>)))"

text \<open>One statement on a connection: the rows it returns, the connection and the file.\<close>

fun execute ::
    "stmt \<Rightarrow> val list \<Rightarrow> connection \<Rightarrow> database \<Rightarrow>
     driver_error + row list \<times> connection \<times> database" where
  "execute PRAGMA_foreign_keys_ON ps c d = Inr ([], c\<lparr>foreign_keys := True\<rparr>, d)"
| "execute (CREATE_TABLE_IF_NOT_EXISTS td) ps c d = Inr ([], c, create_table td d)"
| "execute (SELECT_COUNT t) ps c d =
     (case select_count t d of Inl e \<Rightarrow> Inl e | Inr rs \<Rightarrow> Inr (rs, c, d))"
| "execute INSERT_INTO_users ps c d =
     (case insert_users ps d of
        Inl e \<Rightarrow> Inl e
      | Inr (rowid, d') \<Rightarrow> Inr ([], c\<lparr>conn_changes := 1, last_insert_rowid := rowid\<rparr>, d'))"
| "execute (PRAGMA_table_info t) ps c d = Inr (table_info t d, c, d)"
| "execute (ALTER_TABLE_ADD_COLUMN t x) ps c d =
     (case add_column t x d of Inl e \<Rightarrow> Inl e | Inr d' \<Rightarrow> Inr ([], c, d'))"
| "execute UPDATE_points_ledger_series_id ps c d =
     (case update_series_id d of
        Inl e \<Rightarrow> Inl e
      | Inr (n, d') \<Rightarrow> Inr ([], c\<lparr>conn_changes := n\<rparr>, d'))"
| "execute (CREATE_INDEX_IF_NOT_EXISTS n t cols) ps c d =
     (case create_index n t cols d of Inl e \<Rightarrow> Inl e | Inr d' \<Rightarrow> Inr ([], c, d'))"

fun placeholders :: "stmt \<Rightarrow> nat" where
  "placeholders INSERT_INTO_users = 5"
| "placeholders _ = 0"

subsection \<open>The driver's methods\<close>

text \<open>
  A statement on the connection with handle \<open>h\<close>: refused on a connection that is not
  open, and when more parameters are bound than the statement has placeholders.
\<close>

definition step ::
    "nat \<Rightarrow> stmt \<Rightarrow> val list \<Rightarrow> sqlite_state \<Rightarrow> driver_error + row list \<times> sqlite_state" where
  "step h st ps s =
     (if h < length (connections s) \<and> is_open (connections s ! h) then
        if placeholders st < length ps then Inl range_error
        else (case execute st ps (connections s ! h) (disk s) of
                Inl e \<Rightarrow> Inl e
              | Inr (rs, c, d) \<Rightarrow>
                  Inr (rs, s\<lparr>connections := (connections s)[h := c], disk := d\<rparr>))
      else Inl misuse)"

definition this_of :: "nat \<Rightarrow> sqlite_state \<Rightarrow> run_result" where
  "this_of h s =
     (if h < length (connections s)
      then \<lparr>changes = conn_changes (connections s ! h),
            lastID = last_insert_rowid (connections s ! h)\<rparr>
      else \<lparr>changes = 0, lastID = 0\<rparr>)"

definition sqlite_run ::
    "nat \<Rightarrow> sql \<Rightarrow> val list \<Rightarrow> sqlite_state \<Rightarrow>
     (driver_error option \<times> run_result) \<times> sqlite_state" where
  "sqlite_run h q ps s =
     (case step h (first_statement q) ps s of
        Inl e \<Rightarrow> ((Some e, this_of h s), s)
      | Inr (rs, s') \<Rightarrow> ((None, this_of h s'), s'))"

definition sqlite_get ::
    "nat \<Rightarrow> sql \<Rightarrow> val list \<Rightarrow> sqlite_state \<Rightarrow>
     (driver_error option \<times> row option) \<times> sqlite_state" where
  "sqlite_get h q ps s =
     (case step h (first_statement q) ps s of
        Inl e \<Rightarrow> ((Some e, None), s)
      | Inr (rs, s') \<Rightarrow> ((None, case rs of [] \<Rightarrow> None | r # _ \<Rightarrow> Some r), s'))"

definition sqlite_all ::
    "nat \<Rightarrow> sql \<Rightarrow> val list \<Rightarrow> sqlite_state \<Rightarrow>
     (driver_error option \<times> row list) \<times> sqlite_state" where
  "sqlite_all h q ps s =
     (case step h (first_statement q) ps s of
        Inl e \<Rightarrow> ((Some e, []), s)
      | Inr (rs, s') \<Rightarrow> ((None, rs), s'))"

text \<open>\<^verbatim>\<open>exec\<close> runs the statements in order and stops at the first that fails.\<close>

fun exec_all :: "nat \<Rightarrow> stmt list \<Rightarrow> sqlite_state \<Rightarrow> driver_error option \<times> sqlite_state" where
  "exec_all h [] s = (None, s)"
| "exec_all h (st # sts) s =
     (case step h st [] s of
        Inl e \<Rightarrow> (Some e, s)
      | Inr (rs, s') \<Rightarrow> exec_all h sts s')"

definition sqlite_exec :: "nat \<Rightarrow> sql \<Rightarrow> sqlite_state \<Rightarrow> driver_error option \<times> sqlite_state" where
  "sqlite_exec h q s = exec_all h (statements q) s"

definition sqlite_close :: "nat \<Rightarrow> sqlite_state \<Rightarrow> driver_error option \<times> sqlite_state" where
  "sqlite_close h s =
     (if h < length (connections s) \<and> is_open (connections s ! h)
      then (None, s\<lparr>connections := (connections s)[h := (connections s ! h)\<lparr>is_open := False\<rparr>]\<rparr>)
      else (Some misuse, s))"

text \<open>
  \<^verbatim>\<open>new sqlite3.Database(path)\<close>: a new open connection, with foreign-key enforcement
  off as SQLite starts. The file is taken to be one that can be opened or created.
\<close>

definition sqlite_new :: "string \<Rightarrow> sqlite_state \<Rightarrow> nat \<times> sqlite_state" where
  "sqlite_new path s =
     (length (connections s),
      s\<lparr>connections := connections s @
          [\<lparr>is_open = True, foreign_keys = False, conn_changes = 0,
            last_insert_rowid = 0\<rparr>]\<rparr>)"

definition sqlite :: "sqlite_state sqlite3" where
  "sqlite =
     \<lparr>new_Database = sqlite_new, db_run = sqlite_run, db_get = sqlite_get,
      db_all = sqlite_all, db_exec = sqlite_exec, db_close = sqlite_close\<rparr>"

text \<open>The module freshly loaded, on a file that does not exist yet.\<close>

definition fresh :: "sqlite_state state" where
  "fresh =
     \<lparr>dbPath = ''data/db.sqlite'', dbInstance = None, calls = [],
      driver = \<lparr>connections = [], disk = \<lparr>tables = [], indexes = []\<rparr>\<rparr>\<rparr>"




definition rt0 :: runtime where
  "rt0 =
     \<lparr>env = (\<lambda>_. None), bcrypt_hash = (\<lambda>pw n. ''$2b$10$'' @ pw),
      now = ''2024-01-01T00:00:00.000Z''\<rparr>"

section \<open>Notions the statements use\<close>

text \<open>
  \<open>opened\<close> counts the \<^verbatim>\<open>new sqlite3.Database\<close> calls in a trace; \<open>module_vars\<close> is what
  must not change once the singleton exists; \<open>connected\<close> says that a handle is an open
  connection of the driver.
\<close>

definition opened :: "call list \<Rightarrow> nat" where
  "opened cs = length (filter (\<lambda>c. case c of New_Database p \<Rightarrow> True | _ \<Rightarrow> False) cs)"

definition module_vars :: "'s state \<Rightarrow> string \<times> nat option \<times> nat" where
  "module_vars s = (dbPath s, dbInstance s, opened (calls s))"

definition connected :: "nat \<Rightarrow> sqlite_state \<Rightarrow> bool" where
  "connected h d = (h < length (connections d) \<and> is_open (connections d ! h))"

definition preserves :: "('s state \<Rightarrow> bool) \<Rightarrow> ('a, 's state) promise \<Rightarrow> bool" where
  "preserves P p = (\<forall>s. P s \<longrightarrow> P (snd (p s)))"

text \<open>
  An invariant of the module over a driver: kept by \<open>getDb\<close>, by every method of a
  wrapper, and by a trace entry that opens nothing.
\<close>

definition module_invariant :: "'s sqlite3 \<Rightarrow> ('s state \<Rightarrow> bool) \<Rightarrow> bool" where
  "module_invariant drv P =
     (preserves P (getDb drv) \<and>
      (\<forall>p h q ps. preserves P (run (wrapDb p (Database_object drv h)) q ps)) \<and>
      (\<forall>p h q ps. preserves P (get (wrapDb p (Database_object drv h)) q ps)) \<and>
      (\<forall>p h q ps. preserves P (all (wrapDb p (Database_object drv h)) q ps)) \<and>
      (\<forall>p h q. preserves P (exec (wrapDb p (Database_object drv h)) q)) \<and>
      (\<forall>p h. preserves P (close (wrapDb p (Database_object drv h)))) \<and>
      (\<forall>s c. P s \<longrightarrow> opened [c] = 0 \<longrightarrow> P (s\<lparr>calls := calls s @ [c]\<rparr>)))"

section \<open>The module over SQLite, seen from the database file\<close>

text \<open>
  Over SQLite, what the module does depends on the connection only for being open. The
  definitions below restate the module's functions on the database file and the trace
  alone; the theorems first show that the module refines them, then reason on the file.
\<close>

text \<open>The \<^verbatim>\<open>CREATE TABLE IF NOT EXISTS\<close> statements of the schema script, on the file.\<close>

definition create_all :: "database \<Rightarrow> database" where
  "create_all d = fold create_table schema_tables d"

text \<open>What a statement returns and does to the file does not depend on the connection.\<close>

definition effect :: "stmt \<Rightarrow> val list \<Rightarrow> database \<Rightarrow> driver_error + row list \<times> database" where
  "effect st ps d =
     (case execute st ps \<lparr>is_open = True, foreign_keys = True, conn_changes = 0,
                           last_insert_rowid = 0\<rparr> d of
        Inl e \<Rightarrow> Inl e
      | Inr (rs, c, d') \<Rightarrow> Inr (rs, d'))"

text \<open>
  A view of a promise from the file: the driver's error, or the value, the file afterwards
  and the calls made.
\<close>

type_synonym 'a model = "database \<Rightarrow> driver_error + 'a \<times> database \<times> call list"

text \<open>One view after another, as \<open>await\<close> chains promises.\<close>

definition then_model :: "'a model \<Rightarrow> ('a \<Rightarrow> 'b model) \<Rightarrow> 'b model" where
  "then_model f k d =
     (case f d of
        Inl e \<Rightarrow> Inl e
      | Inr (a, d1, cs1) \<Rightarrow>
          (case k a d1 of Inl e \<Rightarrow> Inl e | Inr (b, d2, cs2) \<Rightarrow> Inr (b, d2, cs1 @ cs2)))"

text \<open>The views of \<open>resolve\<close>, of the log, of the hash and of the wrapper's methods.\<close>

definition return_model :: "'a \<Rightarrow> 'a model" where
  "return_model v d = Inr (v, d, [])"

definition log_model :: "string \<Rightarrow> unit model" where
  "log_model m d = Inr ((), d, [Console_log m])"

definition hash_model :: "runtime \<Rightarrow> string \<Rightarrow> nat \<Rightarrow> string model" where
  "hash_model rt pw n d = Inr (bcrypt_hash rt pw n, d, [Bcrypt_hash pw n])"

definition run_model :: "nat \<Rightarrow> sql \<Rightarrow> val list \<Rightarrow> unit model" where
  "run_model h q ps d =
     (if placeholders (first_statement q) < length ps then Inl range_error
      else case effect (first_statement q) ps d of
        Inl e \<Rightarrow> Inl e
      | Inr (rs, d') \<Rightarrow> Inr ((), d', [Run_call h q ps]))"

definition get_model :: "nat \<Rightarrow> sql \<Rightarrow> val list \<Rightarrow> row option model" where
  "get_model h q ps d =
     (if placeholders (first_statement q) < length ps then Inl range_error
      else case effect (first_statement q) ps d of
        Inl e \<Rightarrow> Inl e
      | Inr (rs, d') \<Rightarrow> Inr (case rs of [] \<Rightarrow> None | r # _ \<Rightarrow> Some r, d', [Get_call h q ps]))"

definition all_model :: "nat \<Rightarrow> sql \<Rightarrow> val list \<Rightarrow> row list model" where
  "all_model h q ps d =
     (if placeholders (first_statement q) < length ps then Inl range_error
      else case effect (first_statement q) ps d of
        Inl e \<Rightarrow> Inl e
      | Inr (rs, d') \<Rightarrow> Inr (rs, d', [All_call h q ps]))"

definition schema_model :: "nat \<Rightarrow> unit model" where
  "schema_model h d = Inr ((), create_all d, [Exec_call h schema_script])"

text \<open>
  A promise refines a view at handle \<open>h\<close>: from any state whose connection \<open>h\<close> is open,
  it leaves the connection open and the module's variables alone, and it either fails with
  the view's error or resolves with the view's value (seen through \<open>vw\<close>), file and calls.
\<close>

definition refines ::
    "nat \<Rightarrow> ('a \<Rightarrow> 'b) \<Rightarrow> ('a, sqlite_state state) promise \<Rightarrow> 'b model \<Rightarrow> bool" where
  "refines h vw p f =
     (\<forall>s. connected h (driver s) \<longrightarrow>
        (case p s of
           (r, s') \<Rightarrow>
             connected h (driver s') \<and> dbInstance s' = dbInstance s \<and> dbPath s' = dbPath s \<and>
             (case f (disk (driver s)) of
                Inl e \<Rightarrow> r = Inl (Raw e)
              | Inr (b, d', cs) \<Rightarrow>
                  (\<exists>v. r = Inr v \<and> vw v = b) \<and> disk (driver s') = d' \<and>
                  calls s' = calls s @ cs)))"

text \<open>The functions of the module, written again in that view.\<close>

definition ensure_model :: "nat \<Rightarrow> unit model" where
  "ensure_model h =
     then_model (all_model h table_info_points_ledger []) (\<lambda>cols.
       let names = map (\<lambda>c. map_of c ''name'') cols;
           hasSeriesId = includes_name names ''series_id'';
           hasMatchId = includes_name names ''match_id''
       in
       then_model (if \<not> hasSeriesId
              then then_model (run_model h add_series_id [])
                     (\<lambda>_. log_model ''[Migration] Added points_ledger.series_id'')
              else return_model ()) (\<lambda>_.
       then_model (if \<not> hasMatchId
              then then_model (run_model h add_match_id [])
                     (\<lambda>_. log_model ''[Migration] Added points_ledger.match_id'')
              else return_model ()) (\<lambda>_.
       then_model (run_model h backfill_series_id []) (\<lambda>_.
       then_model (run_model h index_series_user []) (\<lambda>_.
       then_model (run_model h index_match []) (\<lambda>_.
       log_model ''[Migration] points_ledger schema ensured and backfilled.''))))))"

definition bootstrap_model :: "nat \<Rightarrow> runtime \<Rightarrow> unit model" where
  "bootstrap_model h rt =
     (let username = or_else (env rt ''BOOTSTRAP_ADMIN_USERNAME'') ''admin'';
          password = or_else (env rt ''BOOTSTRAP_ADMIN_PASSWORD'') ''Admin@123'';
          displayName = or_else (env rt ''BOOTSTRAP_ADMIN_DISPLAY_NAME'') ''Admin''
      in
      then_model (hash_model rt password 10) (\<lambda>hash.
      then_model (run_model h insert_user
               [Text username, Text hash, Text displayName, Integer 1, Text (now rt)]) (\<lambda>_.
      log_model (''Bootstrapped admin user: '' @ username))))"

definition init_model :: "nat \<Rightarrow> runtime \<Rightarrow> unit model" where
  "init_model h rt =
     then_model (schema_model h) (\<lambda>_.
     then_model (get_model h count_users []) (\<lambda>count.
     then_model (if no_users count then bootstrap_model h rt else return_model ()) (\<lambda>_.
     ensure_model h)))"

text \<open>
  The file once the migration has completed: both columns and both indexes are there and
  the backfill changes no row. \<open>ensured_calls\<close> are the calls of a migration on such a file.
\<close>

definition ensured :: "database \<Rightarrow> bool" where
  "ensured d =
     (case find_table ''points_ledger'' d of
        None \<Rightarrow> False
      | Some pl \<Rightarrow>
          (case find_table ''matches'' d of
             None \<Rightarrow> False
           | Some m \<Rightarrow>
               has_column pl ''series_id'' \<and> has_column pl ''match_id'' \<and>
               has_column m ''series_id'' \<and> has_column m ''id'' \<and>
               list_all (\<lambda>r. backfill_row (rows m) r = r) (rows pl) \<and>
               \<not> (is_notnull pl ''series_id'' \<and>
                  list_ex (\<lambda>r. needs_backfill r \<and>
                             match_series_id (rows m) (col r ''match_id'') = Null) (rows pl)) \<and>
               has_index ''idx_points_ledger_series_user'' d \<and>
               has_index ''idx_points_ledger_match'' d))"

definition ensured_calls :: "nat \<Rightarrow> call list" where
  "ensured_calls h =
     [All_call h table_info_points_ledger [],
      Run_call h backfill_series_id [],
      Run_call h index_series_user [],
      Run_call h index_match [],
      Console_log ''[Migration] points_ledger schema ensured and backfilled.'']"

text \<open>The file once \<open>initDb\<close> has completed, and the calls of \<open>initDb\<close> on such a file.\<close>

definition migrated :: "database \<Rightarrow> bool" where
  "migrated d =
     (list_all (\<lambda>td. find_table (tbl_name td) d \<noteq> None) schema_tables \<and>
      (case find_table ''users'' d of None \<Rightarrow> False | Some u \<Rightarrow> rows u \<noteq> []) \<and>
      ensured d)"

definition migrated_calls :: "nat \<Rightarrow> call list" where
  "migrated_calls h =
     [Exec_call h schema_script, Get_call h count_users []] @ ensured_calls h"

text \<open>The rows of the \<^verbatim>\<open>users\<close> table; the parameters and the calls of the bootstrap.\<close>

definition users_of :: "database \<Rightarrow> row list" where
  "users_of d = (case find_table ''users'' d of None \<Rightarrow> [] | Some t \<Rightarrow> rows t)"

definition bootstrap_params :: "runtime \<Rightarrow> val list" where
  "bootstrap_params rt =
     [Text (or_else (env rt ''BOOTSTRAP_ADMIN_USERNAME'') ''admin''),
      Text (bcrypt_hash rt (or_else (env rt ''BOOTSTRAP_ADMIN_PASSWORD'') ''Admin@123'') 10),
      Text (or_else (env rt ''BOOTSTRAP_ADMIN_DISPLAY_NAME'') ''Admin''),
      Integer 1,
      Text (now rt)]"

definition bootstrap_calls :: "nat \<Rightarrow> runtime \<Rightarrow> call list" where
  "bootstrap_calls h rt =
     [Bcrypt_hash (or_else (env rt ''BOOTSTRAP_ADMIN_PASSWORD'') ''Admin@123'') 10,
      Run_call h insert_user (bootstrap_params rt),
      Console_log (''Bootstrapped admin user: '' @
                   or_else (env rt ''BOOTSTRAP_ADMIN_USERNAME'') ''admin'')]"







section \<open>Invariants of the module\<close>

lemma opened_append [simp]: "opened (xs @ ys) = opened xs + opened ys"
  by (simp add: opened_def)

lemma opened_simps [simp]:
  "opened [] = 0"
  "opened (New_Database p # cs) = Suc (opened cs)"
  "opened (Exec_without_callback h q # cs) = opened cs"
  "opened (Exec_call h q # cs) = opened cs"
  "opened (Run_call h q ps # cs) = opened cs"
  "opened (Get_call h q ps # cs) = opened cs"
  "opened (All_call h q ps # cs) = opened cs"
  "opened (Close_call h # cs) = opened cs"
  "opened (Bcrypt_hash pw n # cs) = opened cs"
  "opened (Console_log m # cs) = opened cs"
  by (simp_all add: opened_def)

lemma preserves_await:
  fixes p :: "('a, 's state) promise"
  assumes "preserves P p" and "\<And>s v. fst (p s) = Inr v \<Longrightarrow> preserves P (k v)"
  shows "preserves P (await p k)"
  unfolding preserves_def
proof (intro allI impI)
  fix s :: "'s state"
  assume P: "P s"
  obtain r s' where ps: "p s = (r, s')" by (cases "p s")
  from assms(1) P ps have P': "P s'"
    by (auto simp: preserves_def)
  show "P (snd (await p k s))"
  proof (cases r)
    case (Inl e)
    then show ?thesis using ps P' by (simp add: await_def)
  next
    case (Inr v)
    from assms(2)[of s v] ps Inr have "preserves P (k v)" by simp
    with P' have "P (snd (k v s'))"
      by (auto simp: preserves_def)
    then show ?thesis using ps Inr by (simp add: await_def)
  qed
qed

lemma preserves_if:
  "preserves P a \<Longrightarrow> preserves P b \<Longrightarrow> preserves P (if c then a else b)"
  by simp

lemma preserves_resolve: "preserves P (resolve v)"
  by (simp add: preserves_def resolve_def)

lemma getDb_wrapper:
  "fst (getDb drv s) = Inr v \<Longrightarrow> \<exists>h. v = wrapDb (dbPath s) (Database_object drv h)"
  by (auto simp: getDb_def split: option.splits prod.splits)

lemma preserves_ensure:
  assumes "module_invariant drv P"
  shows "preserves P (ensurePointsLedgerSchema (wrapDb p (Database_object drv h)))"
proof -
  have log: "preserves P (console_log m)" for m
    using assms by (simp add: module_invariant_def preserves_def console_log_def)
  show ?thesis
    unfolding ensurePointsLedgerSchema_def Let_def
    using assms
    by (intro preserves_await preserves_if preserves_resolve log)
       (simp_all add: module_invariant_def)
qed

lemma preserves_bootstrap:
  assumes "module_invariant drv P"
  shows "preserves P (bootstrap_admin rt (wrapDb p (Database_object drv h)))"
proof -
  have log: "preserves P (console_log m)" for m
    using assms by (simp add: module_invariant_def preserves_def console_log_def)
  have hash: "preserves P (hash rt pw n)" for pw n
    using assms by (simp add: module_invariant_def preserves_def hash_def)
  show ?thesis
    unfolding bootstrap_admin_def Let_def
    using assms
    by (intro preserves_await log hash) (simp_all add: module_invariant_def)
qed

lemma preserves_initDb:
  assumes inv: "module_invariant drv P"
  shows "preserves P (initDb drv rt)"
  unfolding initDb_def
proof (rule preserves_await)
  show "preserves P (getDb drv)" using inv by (simp add: module_invariant_def)
next
  fix s :: "'a state" and db
  assume "fst (getDb drv s) = Inr db"
  then obtain h where db: "db = wrapDb (dbPath s) (Database_object drv h)"
    using getDb_wrapper by blast
  have m: "preserves P (exec db q)" "preserves P (get db q ps)" for q ps
    using inv by (simp_all add: module_invariant_def db)
  show "preserves P (await (exec db schema_script) (\<lambda>_.
     await (get db count_users []) (\<lambda>count.
     await (if no_users count then bootstrap_admin rt db else resolve ()) (\<lambda>_.
     ensurePointsLedgerSchema db))))"
    by (intro preserves_await preserves_if preserves_resolve m)
       (simp_all add: db preserves_ensure[OF inv] preserves_bootstrap[OF inv])
qed

lemma preserves_after_getDb:
  assumes inv: "module_invariant drv P"
    and k: "\<And>p h. preserves P (k (wrapDb p (Database_object drv h)))"
  shows "preserves P (await (getDb drv) k)"
proof (rule preserves_await)
  show "preserves P (getDb drv)" using inv by (simp add: module_invariant_def)
next
  fix s :: "'a state" and db
  assume "fst (getDb drv s) = Inr db"
  then obtain h where "db = wrapDb (dbPath s) (Database_object drv h)"
    using getDb_wrapper by blast
  then show "preserves P (k db)" using k by simp
qed

lemma preserves_method_calls:
  assumes inv: "module_invariant drv P"
  shows "preserves P (await (getDb drv) (\<lambda>db. run db q ps))"
    and "preserves P (await (getDb drv) (\<lambda>db. get db q ps))"
    and "preserves P (await (getDb drv) (\<lambda>db. all db q ps))"
    and "preserves P (await (getDb drv) (\<lambda>db. exec db q))"
    and "preserves P (await (getDb drv) (\<lambda>db. close db))"
  using inv by (simp_all add: preserves_after_getDb module_invariant_def)

lemma invariant_perform:
  assumes inv: "module_invariant drv P" and "P s"
  shows "P (perform drv a s)"
proof -
  have "preserves P (getDb drv)" using inv by (simp add: module_invariant_def)
  then show ?thesis
    using preserves_initDb[OF inv] preserves_method_calls[OF inv] \<open>P s\<close>
    by (cases a) (simp_all add: preserves_def)
qed

lemma invariant_performs:
  assumes inv: "module_invariant drv P" and "P s"
  shows "P (performs drv acts s)"
  using \<open>P s\<close> unfolding performs_def
  by (induction acts arbitrary: s) (simp_all add: invariant_perform[OF inv])

lemma module_vars_invariant:
  "module_invariant drv (\<lambda>s. dbInstance s \<noteq> None \<and> module_vars s = v)"
  unfolding module_invariant_def preserves_def
  by (auto simp: getDb_def wrapDb_def Database_object_def module_vars_def split: prod.splits)

lemma module_vars_performs:
  "dbInstance s \<noteq> None \<Longrightarrow> module_vars (performs drv acts s) = module_vars s"
  using invariant_performs[OF module_vars_invariant, of s "module_vars s" drv acts] by simp


lemmas fresh_defs =
  fresh_def sqlite_def sqlite_new_def sqlite_exec_def sqlite_run_def sqlite_get_def
  sqlite_all_def sqlite_close_def step_def pragma_foreign_keys_def this_of_def

lemma getDb_fresh:
  "getDb sqlite fresh =
     (Inr (wrapDb ''data/db.sqlite'' (Database_object sqlite 0)),
      fresh\<lparr>dbInstance := Some 0,
        calls := [New_Database ''data/db.sqlite'', Exec_without_callback 0 pragma_foreign_keys],
        driver :=
          \<lparr>connections =
             [\<lparr>is_open = True, foreign_keys = True, conn_changes = 0, last_insert_rowid = 0\<rparr>],
           disk = \<lparr>tables = [], indexes = []\<rparr>\<rparr>\<rparr>)"
  by (simp add: getDb_def fresh_defs)

section \<open>The promise wrapper fails with the driver's error\<close>

lemma native_fail:
  "native_run (Database_object sqlite 0) count_users [] (snd (getDb sqlite fresh)) =
     ((Some (no_such_table ''users''), \<lparr>changes = 0, lastID = 0\<rparr>),
      (snd (getDb sqlite fresh))\<lparr>calls := calls (snd (getDb sqlite fresh)) @ [Run_call 0 count_users []]\<rparr>)"
  "native_get (Database_object sqlite 0) count_users [] (snd (getDb sqlite fresh)) =
     ((Some (no_such_table ''users''), None),
      (snd (getDb sqlite fresh))\<lparr>calls := calls (snd (getDb sqlite fresh)) @ [Get_call 0 count_users []]\<rparr>)"
  "native_all (Database_object sqlite 0) count_users [] (snd (getDb sqlite fresh)) =
     ((Some (no_such_table ''users''), []),
      (snd (getDb sqlite fresh))\<lparr>calls := calls (snd (getDb sqlite fresh)) @ [All_call 0 count_users []]\<rparr>)"
  "native_exec (Database_object sqlite 0) count_users (snd (getDb sqlite fresh)) =
     (Some (no_such_table ''users''),
      (snd (getDb sqlite fresh))\<lparr>calls := calls (snd (getDb sqlite fresh)) @ [Exec_call 0 count_users]\<rparr>)"
  unfolding getDb_fresh
  by (simp_all add: Database_object_def fresh_defs count_users_def select_count_def find_table_def)

text \<open>
  Claim C2, as amended. For each of \<^verbatim>\<open>run\<close>, \<^verbatim>\<open>get\<close>, \<^verbatim>\<open>all\<close> and \<^verbatim>\<open>exec\<close>, every
  native object, query, parameters and state: when the driver hands an error to the
  callback, the promise is rejected with that very error object, and the state is the one
  the driver left.
\<close>

theorem wrapDb_rejects_with_driver_error:
  "(native_run db q ps s = ((Some e1, this), s1) \<longrightarrow> run (wrapDb p db) q ps s = (Inl (Raw e1), s1)) \<and>
   (native_get db q ps s = ((Some e2, r), s2) \<longrightarrow> get (wrapDb p db) q ps s = (Inl (Raw e2), s2)) \<and>
   (native_all db q ps s = ((Some e3, rs), s3) \<longrightarrow> all (wrapDb p db) q ps s = (Inl (Raw e3), s3)) \<and>
   (native_exec db q s = (Some e4, s4) \<longrightarrow> exec (wrapDb p db) q s = (Inl (Raw e4), s4))"
  by (simp add: wrapDb_def settle_def)

theorem wrapDb_rejects_with_driver_error_witness:
  "fst (run (wrapDb ''data/db.sqlite'' (Database_object sqlite 0)) count_users []
          (snd (getDb sqlite fresh))) = Inl (Raw (no_such_table ''users'')) \<and>
   fst (get (wrapDb ''data/db.sqlite'' (Database_object sqlite 0)) count_users []
          (snd (getDb sqlite fresh))) = Inl (Raw (no_such_table ''users'')) \<and>
   fst (all (wrapDb ''data/db.sqlite'' (Database_object sqlite 0)) count_users []
          (snd (getDb sqlite fresh))) = Inl (Raw (no_such_table ''users'')) \<and>
   fst (exec (wrapDb ''data/db.sqlite'' (Database_object sqlite 0)) count_users
          (snd (getDb sqlite fresh))) = Inl (Raw (no_such_table ''users''))"
  using wrapDb_rejects_with_driver_error
    [of "Database_object sqlite 0" count_users "[]" "snd (getDb sqlite fresh)"
        "no_such_table ''users''" "\<lparr>changes = 0, lastID = 0\<rparr>"
        "(snd (getDb sqlite fresh))\<lparr>calls := calls (snd (getDb sqlite fresh)) @ [Run_call 0 count_users []]\<rparr>"
        "''data/db.sqlite''"
        "no_such_table ''users''" None
        "(snd (getDb sqlite fresh))\<lparr>calls := calls (snd (getDb sqlite fresh)) @ [Get_call 0 count_users []]\<rparr>"
        "no_such_table ''users''" "[]"
        "(snd (getDb sqlite fresh))\<lparr>calls := calls (snd (getDb sqlite fresh)) @ [All_call 0 count_users []]\<rparr>"
        "no_such_table ''users''"
        "(snd (getDb sqlite fresh))\<lparr>calls := calls (snd (getDb sqlite fresh)) @ [Exec_call 0 count_users]\<rparr>"]
  by (simp add: native_fail)

text \<open>
  Claim C2 as stated fails: counting the users of a database without a \<^verbatim>\<open>users\<close> table
  makes the driver report "no such table", and the promise of \<^verbatim>\<open>get\<close> is not rejected
  with a \<open>DatabaseError\<close> around that error.
\<close>

theorem wrapDb_DatabaseError_counterexample:
  "fst (native_get (Database_object sqlite 0) count_users [] (snd (getDb sqlite fresh)))
     = (Some (no_such_table ''users''), None) \<and>
   fst (get (wrapDb ''data/db.sqlite'' (Database_object sqlite 0)) count_users []
          (snd (getDb sqlite fresh))) \<noteq> Inl (DatabaseError (no_such_table ''users''))"
  by (simp add: native_fail wrapDb_def settle_def)

section \<open>Cascades in the declared schema\<close>



section \<open>The singleton connection\<close>





section \<open>The module over SQLite\<close>

subsection \<open>The wrapper's methods over SQLite\<close>

lemma await_Inr:
  "await p k s = (Inr v, s') \<longleftrightarrow> (\<exists>x t. p s = (Inr x, t) \<and> k x t = (Inr v, s'))"
  by (auto simp: await_def split: prod.splits sum.splits)

lemma execute_is_open:
  "execute st ps c d = Inr (rs, c', d') \<Longrightarrow> is_open c' = is_open c"
  by (cases st) (auto split: sum.splits)

lemma step_Inr:
  "step h st ps d = Inr (rs, d') \<longleftrightarrow>
     connected h d \<and> length ps \<le> placeholders st \<and>
     (\<exists>c dk. execute st ps (connections d ! h) (disk d) = Inr (rs, c, dk) \<and>
        d' = d\<lparr>connections := (connections d)[h := c], disk := dk\<rparr>)"
  by (auto simp: step_def connected_def split: sum.splits)

lemma step_connected:
  "step h st ps d = Inr (rs, d') \<Longrightarrow> connected h d \<and> connected h d'"
  by (auto simp: step_Inr connected_def dest: execute_is_open)

lemma step_not_connected:
  "\<not> connected h d \<Longrightarrow> step h st ps d = Inl misuse"
  by (auto simp: step_def connected_def)

lemma run_sqlite:
  "run (wrapDb p (Database_object sqlite h)) q ps s =
     (case step h (first_statement q) ps (driver s) of
        Inl e \<Rightarrow> (Inl (Raw e), s\<lparr>calls := calls s @ [Run_call h q ps]\<rparr>)
      | Inr (rs, d') \<Rightarrow>
          (Inr (this_of h d'), s\<lparr>calls := calls s @ [Run_call h q ps], driver := d'\<rparr>))"
  by (simp add: wrapDb_def Database_object_def sqlite_def sqlite_run_def settle_def
      split: sum.splits prod.splits)

lemma get_sqlite:
  "get (wrapDb p (Database_object sqlite h)) q ps s =
     (case step h (first_statement q) ps (driver s) of
        Inl e \<Rightarrow> (Inl (Raw e), s\<lparr>calls := calls s @ [Get_call h q ps]\<rparr>)
      | Inr (rs, d') \<Rightarrow>
          (Inr (case rs of [] \<Rightarrow> None | r # _ \<Rightarrow> Some r),
           s\<lparr>calls := calls s @ [Get_call h q ps], driver := d'\<rparr>))"
  by (simp add: wrapDb_def Database_object_def sqlite_def sqlite_get_def settle_def
      split: sum.splits prod.splits)

lemma all_sqlite:
  "all (wrapDb p (Database_object sqlite h)) q ps s =
     (case step h (first_statement q) ps (driver s) of
        Inl e \<Rightarrow> (Inl (Raw e), s\<lparr>calls := calls s @ [All_call h q ps]\<rparr>)
      | Inr (rs, d') \<Rightarrow>
          (Inr rs, s\<lparr>calls := calls s @ [All_call h q ps], driver := d'\<rparr>))"
  by (simp add: wrapDb_def Database_object_def sqlite_def sqlite_all_def settle_def
      split: sum.splits prod.splits)

lemma exec_sqlite:
  "exec (wrapDb p (Database_object sqlite h)) q s =
     (case exec_all h (statements q) (driver s) of
        (Some e, d') \<Rightarrow> (Inl (Raw e), s\<lparr>calls := calls s @ [Exec_call h q], driver := d'\<rparr>)
      | (None, d') \<Rightarrow> (Inr (), s\<lparr>calls := calls s @ [Exec_call h q], driver := d'\<rparr>))"
  by (simp add: wrapDb_def Database_object_def sqlite_def sqlite_exec_def settle_def
      split: sum.splits prod.splits option.splits)

lemma close_sqlite:
  "close (wrapDb p (Database_object sqlite h)) s =
     (if connected h (driver s)
      then (Inr (), s\<lparr>calls := calls s @ [Close_call h],
                       driver := (driver s)\<lparr>connections :=
                         (connections (driver s))[h := (connections (driver s) ! h)\<lparr>is_open := False\<rparr>]\<rparr>\<rparr>)
      else (Inl (Raw misuse), s\<lparr>calls := calls s @ [Close_call h]\<rparr>))"
  by (simp add: wrapDb_def Database_object_def sqlite_def sqlite_close_def settle_def connected_def)

lemma exec_all_creates:
  "exec_all h (map CREATE_TABLE_IF_NOT_EXISTS tds) d =
     (if connected h d \<or> tds = []
      then (None, d\<lparr>disk := fold create_table tds (disk d)\<rparr>)
      else (Some misuse, d))"
proof (induction tds arbitrary: d)
  case Nil
  then show ?case by simp
next
  case (Cons td tds)
  show ?case
  proof (cases "connected h d")
    case True
    then have c': "connected h (d\<lparr>disk := create_table td (disk d)\<rparr>)"
      by (simp add: connected_def)
    have st: "step h (CREATE_TABLE_IF_NOT_EXISTS td) [] d = Inr ([], d\<lparr>disk := create_table td (disk d)\<rparr>)"
      using True by (simp add: step_def connected_def)
    show ?thesis using True c' st Cons.IH[of "d\<lparr>disk := create_table td (disk d)\<rparr>"]
      by simp
  next
    case False
    then show ?thesis by (simp add: step_not_connected)
  qed
qed

lemma exec_all_schema_script:
  "exec_all h (statements schema_script) d =
     (if connected h d
      then (None, d\<lparr>connections := (connections d)[h := (connections d ! h)\<lparr>foreign_keys := True\<rparr>],
                     disk := create_all (disk d)\<rparr>)
      else (Some misuse, d))"
proof (cases "connected h d")
  case True
  let ?d1 = "d\<lparr>connections := (connections d)[h := (connections d ! h)\<lparr>foreign_keys := True\<rparr>]\<rparr>"
  have st: "step h PRAGMA_foreign_keys_ON [] d = Inr ([], ?d1)"
    using True by (simp add: step_def connected_def)
  have c1: "connected h ?d1" using True by (simp add: connected_def)
  show ?thesis using True st c1
    by (simp add: schema_script_def exec_all_creates create_all_def)
next
  case False
  then show ?thesis by (simp add: schema_script_def step_not_connected)
qed

subsection \<open>Tables and indexes\<close>

lemma find_table_update_table:
  assumes "\<And>t. tbl_name (decl (f t)) = tbl_name (decl t)"
  shows "find_table n' (update_table n f d) =
           (if n' = n then map_option f (find_table n d) else find_table n' d)"
proof -
  have "find (\<lambda>t. tbl_name (decl t) = n')
          (update_first (\<lambda>t. tbl_name (decl t) = n) f ts) =
        (if n' = n then map_option f (find (\<lambda>t. tbl_name (decl t) = n) ts)
         else find (\<lambda>t. tbl_name (decl t) = n') ts)" for ts
    using assms by (induction ts) auto
  then show ?thesis by (simp add: find_table_def update_table_def)
qed

lemma update_first_same:
  "(\<And>x. find P xs = Some x \<Longrightarrow> f x = x) \<Longrightarrow> update_first P f xs = xs"
  by (induction xs) auto

lemma update_table_same:
  "(\<And>t. find_table n d = Some t \<Longrightarrow> f t = t) \<Longrightarrow> update_table n f d = d"
  by (simp add: update_table_def find_table_def update_first_same)

lemma indexes_update_table [simp]: "indexes (update_table n f d) = indexes d"
  by (simp add: update_table_def)

lemma has_index_update_table [simp]: "has_index i (update_table n f d) = has_index i d"
  by (simp add: has_index_def)

lemma find_append:
  "find P (xs @ ys) = (case find P xs of Some x \<Rightarrow> Some x | None \<Rightarrow> find P ys)"
  by (induction xs) auto

lemma find_table_append:
  "find_table n (d\<lparr>tables := tables d @ [t]\<rparr>) =
     (case find_table n d of Some x \<Rightarrow> Some x
      | None \<Rightarrow> if tbl_name (decl t) = n then Some t else None)"
  by (simp add: find_table_def find_append split: option.splits)

lemma find_table_create_table:
  "find_table n (create_table td d) =
     (case find_table n d of Some x \<Rightarrow> Some x
      | None \<Rightarrow> if tbl_name td = n then Some \<lparr>decl = td, rows = [], seq = 0\<rparr> else None)"
  by (auto simp: create_table_def find_table_def find_append split: option.splits)

lemma indexes_create_table [simp]: "indexes (create_table td d) = indexes d"
  by (simp add: create_table_def split: option.splits)

lemma find_table_fold_create:
  "find_table n (fold create_table tds d) =
     (case find_table n d of Some x \<Rightarrow> Some x
      | None \<Rightarrow> (case find (\<lambda>td. tbl_name td = n) tds of
                   Some td \<Rightarrow> Some \<lparr>decl = td, rows = [], seq = 0\<rparr> | None \<Rightarrow> None))"
  by (induction tds arbitrary: d) (auto simp: find_table_create_table split: option.splits)

lemma indexes_fold_create [simp]: "indexes (fold create_table tds d) = indexes d"
  by (induction tds arbitrary: d) simp_all

lemma fold_create_existing:
  "\<forall>td \<in> set tds. find_table (tbl_name td) d \<noteq> None \<Longrightarrow> fold create_table tds d = d"
  by (induction tds arbitrary: d) (auto simp: create_table_def)

lemma find_table_create_all:
  "find_table n (create_all d) =
     (case find_table n d of Some x \<Rightarrow> Some x
      | None \<Rightarrow> (case find (\<lambda>td. tbl_name td = n) schema_tables of
                   Some td \<Rightarrow> Some \<lparr>decl = td, rows = [], seq = 0\<rparr> | None \<Rightarrow> None))"
  by (simp add: create_all_def find_table_fold_create)

lemma indexes_create_all [simp]: "indexes (create_all d) = indexes d"
  by (simp add: create_all_def)

lemmas table_defs = users_table_def series_table_def series_members_table_def matches_table_def
  predictions_table_def points_ledger_table_def

lemma find_schema_tables:
  "find (\<lambda>td. tbl_name td = ''users'') schema_tables = Some users_table"
  "find (\<lambda>td. tbl_name td = ''matches'') schema_tables = Some matches_table"
  "find (\<lambda>td. tbl_name td = ''points_ledger'') schema_tables = Some points_ledger_table"
  by (simp_all add: schema_tables_def table_defs)

lemma schema_table_names:
  "map tbl_name schema_tables =
     [''users'', ''series'', ''series_members'', ''matches'', ''predictions'', ''points_ledger'']"
  by (simp add: schema_tables_def table_defs)

lemma names_of_info_rows:
  "map (\<lambda>c. map_of c ''name'') (map (info_row td) (enumerate n cs)) =
     map (\<lambda>c. Some (Text (col_name c))) cs"
  by (induction cs arbitrary: n) (simp_all add: info_row_def)

lemma includes_table_info:
  "includes_name (map (\<lambda>c. map_of c ''name'') (table_info n d)) x =
     (case find_table n d of None \<Rightarrow> False | Some t \<Rightarrow> has_column t x)"
proof (cases "find_table n d")
  case None
  then show ?thesis by (simp add: table_info_def includes_name_def)
next
  case (Some t)
  then have "map (\<lambda>c. map_of c ''name'') (table_info n d) =
      map (\<lambda>c. Some (Text (col_name c))) (tbl_columns (decl t))"
    by (simp only: table_info_def option.case names_of_info_rows)
  then show ?thesis
    using Some by (auto simp: includes_name_def has_column_def column_names_def)
qed

subsection \<open>The module refines its view from the file\<close>

lemma refines_await:
  assumes p: "refines h vw p f" and k: "\<And>v. refines h vw' (k v) (f' (vw v))"
  shows "refines h vw' (await p k) (then_model f f')"
  unfolding refines_def
proof (intro allI impI)
  fix s :: "sqlite_state state"
  assume c: "connected h (driver s)"
  obtain r s1 where ps: "p s = (r, s1)" by (cases "p s")
  from p c ps have c1: "connected h (driver s1)" and i1: "dbInstance s1 = dbInstance s"
    and p1: "dbPath s1 = dbPath s"
    and f1: "case f (disk (driver s)) of
                Inl e \<Rightarrow> r = Inl (Raw e)
              | Inr (b, d', cs) \<Rightarrow>
                  (\<exists>v. r = Inr v \<and> vw v = b) \<and> disk (driver s1) = d' \<and>
                  calls s1 = calls s @ cs"
    by (auto simp: refines_def)
  show "case await p k s of
           (r, s') \<Rightarrow>
             connected h (driver s') \<and> dbInstance s' = dbInstance s \<and> dbPath s' = dbPath s \<and>
             (case then_model f f' (disk (driver s)) of
                Inl e \<Rightarrow> r = Inl (Raw e)
              | Inr (b, d', cs) \<Rightarrow>
                  (\<exists>v. r = Inr v \<and> vw' v = b) \<and> disk (driver s') = d' \<and>
                  calls s' = calls s @ cs)"
  proof (cases "f (disk (driver s))")
    case (Inl e)
    then show ?thesis using f1 ps c1 i1 p1 by (simp add: await_def then_model_def)
  next
    case (Inr x)
    obtain b d1 cs1 where x: "x = (b, d1, cs1)" by (cases x)
    from f1 Inr x obtain v where rv: "r = Inr v" and av: "vw v = b"
      and d1: "disk (driver s1) = d1" and cs1: "calls s1 = calls s @ cs1" by auto
    obtain r2 s2 where k2: "k v s1 = (r2, s2)" by (cases "k v s1")
    from k[of v] c1 k2 have c2: "connected h (driver s2)" and i2: "dbInstance s2 = dbInstance s1"
      and p2: "dbPath s2 = dbPath s1"
      and f2: "case f' (vw v) (disk (driver s1)) of
                Inl e \<Rightarrow> r2 = Inl (Raw e)
              | Inr (b, d', cs) \<Rightarrow>
                  (\<exists>v. r2 = Inr v \<and> vw' v = b) \<and> disk (driver s2) = d' \<and>
                  calls s2 = calls s1 @ cs"
      by (auto simp: refines_def)
    have aw: "await p k s = (r2, s2)" using ps rv k2 by (simp add: await_def)
    show ?thesis
      using aw c2 i2 p2 i1 p1 f2 Inr x av d1 cs1
      by (auto simp: then_model_def split: sum.splits)
  qed
qed

lemma refines_if:
  "refines h vw a fa \<Longrightarrow> refines h vw b fb \<Longrightarrow>
   refines h vw (if c then a else b) (if c then fa else fb)"
  by simp

lemma refines_resolve: "refines h (\<lambda>v. v) (resolve v) (return_model v)"
  by (simp add: refines_def resolve_def return_model_def)

lemma refines_console_log: "refines h (\<lambda>v. v) (console_log m) (log_model m)"
  by (simp add: refines_def console_log_def log_model_def)

lemma refines_hash: "refines h (\<lambda>v. v) (hash rt pw n) (hash_model rt pw n)"
  by (simp add: refines_def hash_def hash_model_def)

lemma execute_effect:
  "(case effect st ps d of
      Inl e \<Rightarrow> execute st ps c d = Inl e
    | Inr (rs, d') \<Rightarrow> (\<exists>c'. is_open c' = is_open c \<and> execute st ps c d = Inr (rs, c', d')))"
  by (cases st) (auto simp: effect_def split: sum.splits)

lemma step_effect:
  assumes "connected h d" and "\<not> placeholders st < length ps"
  shows "case effect st ps (disk d) of
      Inl e \<Rightarrow> step h st ps d = Inl e
    | Inr (rs, dk) \<Rightarrow> (\<exists>d'. step h st ps d = Inr (rs, d') \<and> connected h d' \<and> disk d' = dk)"
  using assms execute_effect[where st=st and ps=ps and d="disk d" and c="connections d ! h"]
  by (auto simp: step_def connected_def split: sum.splits)

lemma step_range:
  "connected h d \<Longrightarrow> placeholders st < length ps \<Longrightarrow> step h st ps d = Inl range_error"
  by (simp add: step_def connected_def)

lemma refines_run:
  "refines h (\<lambda>_. ()) (run (wrapDb p (Database_object sqlite h)) q ps) (run_model h q ps)"
  unfolding refines_def
proof (intro allI impI)
  fix s :: "sqlite_state state"
  assume c: "connected h (driver s)"
  show "case run (wrapDb p (Database_object sqlite h)) q ps s of
           (r, s') \<Rightarrow>
             connected h (driver s') \<and> dbInstance s' = dbInstance s \<and> dbPath s' = dbPath s \<and>
             (case run_model h q ps (disk (driver s)) of
                Inl e \<Rightarrow> r = Inl (Raw e)
              | Inr (b, d', cs) \<Rightarrow>
                  (\<exists>v. r = Inr v \<and> () = b) \<and> disk (driver s') = d' \<and>
                  calls s' = calls s @ cs)"
  proof (cases "placeholders (first_statement q) < length ps")
    case True
    then show ?thesis using c by (simp add: run_sqlite step_range run_model_def)
  next
    case False
    from step_effect[OF c False] show ?thesis
      using c False by (auto simp: run_sqlite run_model_def split: sum.splits)
  qed
qed

lemma refines_get:
  "refines h (\<lambda>v. v) (get (wrapDb p (Database_object sqlite h)) q ps) (get_model h q ps)"
  unfolding refines_def
proof (intro allI impI)
  fix s :: "sqlite_state state"
  assume c: "connected h (driver s)"
  show "case get (wrapDb p (Database_object sqlite h)) q ps s of
           (r, s') \<Rightarrow>
             connected h (driver s') \<and> dbInstance s' = dbInstance s \<and> dbPath s' = dbPath s \<and>
             (case get_model h q ps (disk (driver s)) of
                Inl e \<Rightarrow> r = Inl (Raw e)
              | Inr (b, d', cs) \<Rightarrow>
                  (\<exists>v. r = Inr v \<and> v = b) \<and> disk (driver s') = d' \<and>
                  calls s' = calls s @ cs)"
  proof (cases "placeholders (first_statement q) < length ps")
    case True
    then show ?thesis using c by (simp add: get_sqlite step_range get_model_def)
  next
    case False
    from step_effect[OF c False] show ?thesis
      using c False by (auto simp: get_sqlite get_model_def split: sum.splits)
  qed
qed

lemma refines_all:
  "refines h (\<lambda>v. v) (all (wrapDb p (Database_object sqlite h)) q ps) (all_model h q ps)"
  unfolding refines_def
proof (intro allI impI)
  fix s :: "sqlite_state state"
  assume c: "connected h (driver s)"
  show "case all (wrapDb p (Database_object sqlite h)) q ps s of
           (r, s') \<Rightarrow>
             connected h (driver s') \<and> dbInstance s' = dbInstance s \<and> dbPath s' = dbPath s \<and>
             (case all_model h q ps (disk (driver s)) of
                Inl e \<Rightarrow> r = Inl (Raw e)
              | Inr (b, d', cs) \<Rightarrow>
                  (\<exists>v. r = Inr v \<and> v = b) \<and> disk (driver s') = d' \<and>
                  calls s' = calls s @ cs)"
  proof (cases "placeholders (first_statement q) < length ps")
    case True
    then show ?thesis using c by (simp add: all_sqlite step_range all_model_def)
  next
    case False
    from step_effect[OF c False] show ?thesis
      using c False by (auto simp: all_sqlite all_model_def split: sum.splits)
  qed
qed

lemma refines_exec_schema:
  "refines h (\<lambda>v. v) (exec (wrapDb p (Database_object sqlite h)) schema_script) (schema_model h)"
  by (auto simp: refines_def exec_sqlite exec_all_schema_script schema_model_def connected_def)

lemma refines_await_run:
  assumes "refines h (\<lambda>v. v) k f'"
  shows "refines h (\<lambda>v. v) (await (run (wrapDb p (Database_object sqlite h)) q ps) (\<lambda>_. k))
           (then_model (run_model h q ps) (\<lambda>_. f'))"
  by (rule refines_await[OF refines_run]) (rule assms)

lemma refines_await_val:
  assumes "refines h (\<lambda>v. v) p f" and "\<And>v. refines h (\<lambda>v. v) (k v) (f' v)"
  shows "refines h (\<lambda>v. v) (await p k) (then_model f f')"
  by (rule refines_await[OF assms(1)]) (rule assms(2))

lemma refines_ensure:
  "refines h (\<lambda>v. v) (ensurePointsLedgerSchema (wrapDb p (Database_object sqlite h)))
     (ensure_model h)"
  unfolding ensurePointsLedgerSchema_def ensure_model_def Let_def
  by (intro refines_await_run refines_await_val refines_if refines_all refines_console_log
      refines_resolve)

lemma refines_bootstrap:
  "refines h (\<lambda>v. v) (bootstrap_admin rt (wrapDb p (Database_object sqlite h)))
     (bootstrap_model h rt)"
  unfolding bootstrap_admin_def bootstrap_model_def Let_def
  by (intro refines_await_run refines_await_val refines_hash refines_console_log)

lemma refines_after_getDb:
  "refines h (\<lambda>v. v)
     (await (exec (wrapDb p (Database_object sqlite h)) schema_script) (\<lambda>_.
      await (get (wrapDb p (Database_object sqlite h)) count_users []) (\<lambda>count.
      await (if no_users count then bootstrap_admin rt (wrapDb p (Database_object sqlite h))
             else resolve ()) (\<lambda>_.
      ensurePointsLedgerSchema (wrapDb p (Database_object sqlite h))))))
     (init_model h rt)"
  unfolding init_model_def
  by (intro refines_await_val refines_if refines_exec_schema refines_get refines_bootstrap
      refines_resolve refines_ensure)

subsection \<open>When the statements succeed\<close>

lemma then_model_Inr:
  "then_model f k d = Inr (b, d2, cs) \<longleftrightarrow>
     (\<exists>a d1 cs1 cs2. f d = Inr (a, d1, cs1) \<and> k a d1 = Inr (b, d2, cs2) \<and> cs = cs1 @ cs2)"
  by (auto simp: then_model_def split: sum.splits)

lemma then_model_ok:
  "f d = Inr (a, d1, cs1) \<Longrightarrow> then_model f k d =
     (case k a d1 of Inl e \<Rightarrow> Inl e | Inr (b, d2, cs2) \<Rightarrow> Inr (b, d2, cs1 @ cs2))"
  by (simp add: then_model_def)

lemma effect_simps:
  "effect (SELECT_COUNT t) ps d =
     (case find_table t d of None \<Rightarrow> Inl (no_such_table t)
      | Some x \<Rightarrow> Inr ([ [(''c'', Integer (int (length (rows x))))]], d))"
  "effect (PRAGMA_table_info t) ps d = Inr (table_info t d, d)"
  "effect (ALTER_TABLE_ADD_COLUMN t x) ps d =
     (case add_column t x d of Inl e \<Rightarrow> Inl e | Inr d' \<Rightarrow> Inr ([], d'))"
  "effect UPDATE_points_ledger_series_id ps d =
     (case update_series_id d of Inl e \<Rightarrow> Inl e | Inr (n, d') \<Rightarrow> Inr ([], d'))"
  "effect (CREATE_INDEX_IF_NOT_EXISTS n t cols) ps d =
     (case create_index n t cols d of Inl e \<Rightarrow> Inl e | Inr d' \<Rightarrow> Inr ([], d'))"
  "effect INSERT_INTO_users ps d =
     (case insert_users ps d of Inl e \<Rightarrow> Inl e | Inr (rowid, d') \<Rightarrow> Inr ([], d'))"
  by (auto simp: effect_def select_count_def split: sum.splits option.splits)

lemma all_model_table_info:
  "all_model h table_info_points_ledger [] d =
     Inr (table_info ''points_ledger'' d, d, [All_call h table_info_points_ledger []])"
  by (simp add: all_model_def table_info_points_ledger_def effect_simps)

lemma get_model_count:
  "get_model h count_users [] d =
     (case find_table ''users'' d of None \<Rightarrow> Inl (no_such_table ''users'')
      | Some u \<Rightarrow> Inr (Some [(''c'', Integer (int (length (rows u))))], d,
                       [Get_call h count_users []]))"
  by (simp add: get_model_def count_users_def effect_simps split: option.splits)

lemma run_model_Inr:
  "run_model h add_series_id [] d = Inr (u, d', cs) \<longleftrightarrow>
     add_column ''points_ledger'' ''series_id'' d = Inr d' \<and> cs = [Run_call h add_series_id []]"
  "run_model h add_match_id [] d = Inr (u, d', cs) \<longleftrightarrow>
     add_column ''points_ledger'' ''match_id'' d = Inr d' \<and> cs = [Run_call h add_match_id []]"
  "run_model h backfill_series_id [] d = Inr (u, d', cs) \<longleftrightarrow>
     (\<exists>n. update_series_id d = Inr (n, d')) \<and> cs = [Run_call h backfill_series_id []]"
  "run_model h index_series_user [] d = Inr (u, d', cs) \<longleftrightarrow>
     create_index ''idx_points_ledger_series_user'' ''points_ledger'' [''series_id'', ''user_id''] d
       = Inr d' \<and> cs = [Run_call h index_series_user []]"
  "run_model h index_match [] d = Inr (u, d', cs) \<longleftrightarrow>
     create_index ''idx_points_ledger_match'' ''points_ledger'' [''match_id''] d = Inr d'
     \<and> cs = [Run_call h index_match []]"
  "length ps \<le> 5 \<Longrightarrow> run_model h insert_user ps d = Inr (u, d', cs) \<longleftrightarrow>
     (\<exists>n. insert_users ps d = Inr (n, d')) \<and> cs = [Run_call h insert_user ps]"
  by (auto simp: run_model_def add_series_id_def add_match_id_def backfill_series_id_def
      index_series_user_def index_match_def insert_user_def effect_simps split: sum.splits)

lemma no_users_count: "no_users (Some [(''c'', Integer (int n))]) = (n = 0)"
  by (simp add: no_users_def)

lemma add_column_Inr:
  "add_column n c d = Inr d' \<longleftrightarrow>
     (\<exists>t. find_table n d = Some t \<and> \<not> has_column t c \<and>
        d' = update_table n (add_nullable c) d)"
  by (auto simp: add_column_def split: option.splits)

lemma add_nullable_name [simp]: "tbl_name (decl (add_nullable c t)) = tbl_name (decl t)"
  by (simp add: add_nullable_def)

lemma update_series_id_Inr:
  "update_series_id d = Inr (k, d') \<longleftrightarrow>
     (\<exists>pl m. find_table ''points_ledger'' d = Some pl \<and> find_table ''matches'' d = Some m \<and>
        has_column pl ''series_id'' \<and> has_column m ''series_id'' \<and> has_column m ''id'' \<and>
        has_column pl ''match_id'' \<and>
        \<not> (is_notnull pl ''series_id'' \<and>
           list_ex (\<lambda>r. needs_backfill r \<and>
                      match_series_id (rows m) (col r ''match_id'') = Null) (rows pl)) \<and>
        k = length (filter needs_backfill (rows pl)) \<and>
        d' = update_table ''points_ledger''
               (\<lambda>t. t\<lparr>rows := map (backfill_row (rows m)) (rows t)\<rparr>) d)"
  by (auto simp: update_series_id_def split: option.splits)

lemma create_index_Inr:
  "create_index n t cols d = Inr d' \<longleftrightarrow>
     (\<exists>tb. find_table t d = Some tb \<and>
        (if has_index n d then d' = d
         else (\<forall>c \<in> set cols. has_column tb c) \<and>
              d' = d\<lparr>indexes := indexes d @
                      [\<lparr>idx_name = n, idx_table = t, idx_columns = cols\<rparr>]\<rparr>))"
  by (auto simp: create_index_def find_None_iff find_Some_iff split: option.splits)

lemma col_update:
  "col (AList.update k v r) k' = (if k' = k then v else col r k')"
  by (simp add: col_def update_conv')

lemma backfill_row_idem: "backfill_row ms (backfill_row ms r) = backfill_row ms r"
  by (simp add: backfill_row_def needs_backfill_def col_update)

lemma backfill_row_null:
  "needs_backfill (backfill_row ms r) \<Longrightarrow>
   match_series_id ms (col (backfill_row ms r) ''match_id'') = Null \<Longrightarrow>
   needs_backfill r \<and> match_series_id ms (col r ''match_id'') = Null"
  by (auto simp: backfill_row_def needs_backfill_def col_update split: if_splits)

subsection \<open>The migration on the file\<close>

lemma find_table_indexes_update [simp]:
  "find_table n (d\<lparr>indexes := ix\<rparr>) = find_table n d"
  by (simp add: find_table_def)

lemma has_index_append:
  "has_index n (d\<lparr>indexes := indexes d @ [i]\<rparr>) = (has_index n d \<or> idx_name i = n)"
  by (auto simp: has_index_def list_ex_iff)

lemma create_index_keeps:
  assumes "create_index n t cols d = Inr d'"
  shows "find_table x d' = find_table x d" and "has_index n d'"
    and "has_index y d \<Longrightarrow> has_index y d'"
proof -
  from assms obtain tb where tb: "find_table t d = Some tb"
    and d': "if has_index n d then d' = d
         else (\<forall>c \<in> set cols. has_column tb c) \<and>
              d' = d\<lparr>indexes := indexes d @
                      [\<lparr>idx_name = n, idx_table = t, idx_columns = cols\<rparr>]\<rparr>"
    unfolding create_index_Inr by blast
  show "find_table x d' = find_table x d"
    using d' by (cases "has_index n d") simp_all
  show "has_index n d'"
    using d' by (cases "has_index n d") (simp_all add: has_index_append)
  show "has_index y d \<Longrightarrow> has_index y d'"
    using d' by (cases "has_index n d") (simp_all add: has_index_append)
qed

lemma add_column_keeps:
  assumes "add_column n c d = Inr d'"
  shows "x \<noteq> n \<Longrightarrow> find_table x d' = find_table x d"
    and "find_table x d \<noteq> None \<Longrightarrow> find_table x d' \<noteq> None"
    and "indexes d' = indexes d"
  using assms by (auto simp: add_column_Inr find_table_update_table)

lemma ensure_model_steps:
  assumes "ensure_model h d = Inr (u, d', cs)"
  shows "\<exists>d1 d2 d3 d4 k.
           (d1 = d \<or> add_column ''points_ledger'' ''series_id'' d = Inr d1) \<and>
           (d2 = d1 \<or> add_column ''points_ledger'' ''match_id'' d1 = Inr d2) \<and>
           update_series_id d2 = Inr (k, d3) \<and>
           create_index ''idx_points_ledger_series_user'' ''points_ledger''
             [''series_id'', ''user_id''] d3 = Inr d4 \<and>
           create_index ''idx_points_ledger_match'' ''points_ledger'' [''match_id''] d4 = Inr d'"
  using assms unfolding ensure_model_def Let_def
  by (auto simp: then_model_Inr run_model_Inr all_model_table_info return_model_def log_model_def
      split: if_splits)

lemma ensure_model_ensured:
  assumes "ensure_model h d = Inr (u, d', cs)"
  shows "ensured d'"
proof -
  from ensure_model_steps[OF assms] obtain d2 d3 d4 k where
    u: "update_series_id d2 = Inr (k, d3)" and
    i1: "create_index ''idx_points_ledger_series_user'' ''points_ledger''
             [''series_id'', ''user_id''] d3 = Inr d4" and
    i2: "create_index ''idx_points_ledger_match'' ''points_ledger'' [''match_id''] d4 = Inr d'"
    by blast
  from u obtain pl m where
    pl: "find_table ''points_ledger'' d2 = Some pl" and m: "find_table ''matches'' d2 = Some m"
    and cols: "has_column pl ''series_id''" "has_column m ''series_id''" "has_column m ''id''"
      "has_column pl ''match_id''"
    and chk: "\<not> (is_notnull pl ''series_id'' \<and>
           list_ex (\<lambda>r. needs_backfill r \<and>
                      match_series_id (rows m) (col r ''match_id'') = Null) (rows pl))"
    and d3: "d3 = update_table ''points_ledger''
               (\<lambda>t. t\<lparr>rows := map (backfill_row (rows m)) (rows t)\<rparr>) d2"
    unfolding update_series_id_Inr by blast
  let ?pl = "pl\<lparr>rows := map (backfill_row (rows m)) (rows pl)\<rparr>"
  have pl3: "find_table ''points_ledger'' d3 = Some ?pl"
    and m3: "find_table ''matches'' d3 = Some m"
    using pl m by (simp_all add: d3 find_table_update_table)
  have pl': "find_table ''points_ledger'' d' = Some ?pl"
    and m': "find_table ''matches'' d' = Some m"
    using pl3 m3 create_index_keeps(1)[OF i1] create_index_keeps(1)[OF i2] by simp_all
  have ix: "has_index ''idx_points_ledger_series_user'' d'" "has_index ''idx_points_ledger_match'' d'"
    using create_index_keeps(2)[OF i1] create_index_keeps(3)[OF i2] create_index_keeps(2)[OF i2]
    by simp_all
  have cols': "has_column ?pl ''series_id''" "has_column ?pl ''match_id''"
    using cols by (simp_all add: has_column_def column_names_def)
  have nn: "is_notnull ?pl ''series_id'' = is_notnull pl ''series_id''"
    by (simp add: is_notnull_def find_column_def)
  have stable: "list_all (\<lambda>r. backfill_row (rows m) r = r) (rows ?pl)"
    by (simp add: list_all_iff backfill_row_idem)
  have chk': "\<not> (is_notnull ?pl ''series_id'' \<and>
           list_ex (\<lambda>r. needs_backfill r \<and>
                      match_series_id (rows m) (col r ''match_id'') = Null) (rows ?pl))"
    using chk backfill_row_null[of "rows m"] unfolding nn by (auto simp: list_ex_iff)
  show ?thesis
    unfolding ensured_def using pl' m' cols' cols(2,3) stable chk' ix by simp
qed

lemma ensure_model_keeps:
  assumes "ensure_model h d = Inr (u, d', cs)"
  shows "x \<noteq> ''points_ledger'' \<Longrightarrow> find_table x d' = find_table x d"
    and "find_table x d \<noteq> None \<Longrightarrow> find_table x d' \<noteq> None"
proof -
  from ensure_model_steps[OF assms] obtain d1 d2 d3 d4 k where
    a1: "d1 = d \<or> add_column ''points_ledger'' ''series_id'' d = Inr d1" and
    a2: "d2 = d1 \<or> add_column ''points_ledger'' ''match_id'' d1 = Inr d2" and
    u: "update_series_id d2 = Inr (k, d3)" and
    i1: "create_index ''idx_points_ledger_series_user'' ''points_ledger''
             [''series_id'', ''user_id''] d3 = Inr d4" and
    i2: "create_index ''idx_points_ledger_match'' ''points_ledger'' [''match_id''] d4 = Inr d'"
    by blast
  have t3: "find_table x d' = find_table x d3" for x
    using create_index_keeps(1)[OF i1] create_index_keeps(1)[OF i2] by simp
  have u1: "x \<noteq> ''points_ledger'' \<Longrightarrow> find_table x d3 = find_table x d2" for x
    using u by (auto simp: update_series_id_Inr find_table_update_table)
  have u2: "find_table x d2 \<noteq> None \<Longrightarrow> find_table x d3 \<noteq> None" for x
    using u by (auto simp: update_series_id_Inr find_table_update_table)
  have b1: "x \<noteq> ''points_ledger'' \<Longrightarrow> find_table x d2 = find_table x d1" for x
    using a2 add_column_keeps(1) by auto
  have b2: "find_table x d1 \<noteq> None \<Longrightarrow> find_table x d2 \<noteq> None" for x
    using a2 add_column_keeps(2) by blast
  have c1: "x \<noteq> ''points_ledger'' \<Longrightarrow> find_table x d1 = find_table x d" for x
    using a1 add_column_keeps(1) by auto
  have c2: "find_table x d \<noteq> None \<Longrightarrow> find_table x d1 \<noteq> None" for x
    using a1 add_column_keeps(2) by blast
  show "x \<noteq> ''points_ledger'' \<Longrightarrow> find_table x d' = find_table x d"
    using t3 u1 b1 c1 by simp
  show "find_table x d \<noteq> None \<Longrightarrow> find_table x d' \<noteq> None"
    using t3 u2 b2 c2 by simp
qed

lemma ensure_model_fixpoint:
  assumes "ensured d"
  shows "ensure_model h d = Inr ((), d, ensured_calls h)"
proof -
  from assms obtain pl m where
    pl: "find_table ''points_ledger'' d = Some pl" and m: "find_table ''matches'' d = Some m"
    and cols: "has_column pl ''series_id''" "has_column pl ''match_id''"
      "has_column m ''series_id''" "has_column m ''id''"
    and stable: "list_all (\<lambda>r. backfill_row (rows m) r = r) (rows pl)"
    and chk: "\<not> (is_notnull pl ''series_id'' \<and>
           list_ex (\<lambda>r. needs_backfill r \<and>
                      match_series_id (rows m) (col r ''match_id'') = Null) (rows pl))"
    and ix: "has_index ''idx_points_ledger_series_user'' d" "has_index ''idx_points_ledger_match'' d"
    by (auto simp: ensured_def split: option.splits)
  have same: "update_table ''points_ledger''
               (\<lambda>t. t\<lparr>rows := map (backfill_row (rows m)) (rows t)\<rparr>) d = d"
  proof (rule update_table_same)
    fix t assume "find_table ''points_ledger'' d = Some t"
    then have "t = pl" using pl by simp
    moreover have "map (backfill_row (rows m)) (rows pl) = rows pl"
      using stable by (simp add: list_all_iff map_idI)
    ultimately show "t\<lparr>rows := map (backfill_row (rows m)) (rows t)\<rparr> = t" by simp
  qed
  have u: "update_series_id d = Inr (length (filter needs_backfill (rows pl)), d)"
    unfolding update_series_id_Inr using pl m cols chk same by simp
  have i1: "create_index ''idx_points_ledger_series_user'' ''points_ledger''
             [''series_id'', ''user_id''] d = Inr d"
    and i2: "create_index ''idx_points_ledger_match'' ''points_ledger'' [''match_id''] d = Inr d"
    unfolding create_index_Inr using pl ix by simp_all
  have r1: "run_model h backfill_series_id [] d = Inr ((), d, [Run_call h backfill_series_id []])"
    and r2: "run_model h index_series_user [] d = Inr ((), d, [Run_call h index_series_user []])"
    and r3: "run_model h index_match [] d = Inr ((), d, [Run_call h index_match []])"
    unfolding run_model_Inr using u i1 i2 by simp_all
  show ?thesis
    unfolding ensure_model_def Let_def
    using pl cols r1 r2 r3
    by (simp add: then_model_def all_model_table_info includes_table_info return_model_def
        log_model_def ensured_calls_def)
qed

subsection \<open>\<open>initDb\<close> on the file\<close>

lemma insert_users_Inr:
  assumes "insert_users ps d = Inr (n, d')"
  shows "\<exists>t. find_table ''users'' d = Some t \<and> (\<forall>c \<in> set insert_columns. has_column t c) \<and>
           d' = update_table ''users''
                  (\<lambda>t'. t'\<lparr>rows := rows t' @ [new_row ps t], seq := Suc (seq t')\<rparr>) d"
  using assms
  by (auto simp: insert_users_def Let_def find_None_iff split: option.splits)

lemma map_of_named:
  "map_of (map (\<lambda>c. (col_name c, F c)) cs) k = map_option F (find (\<lambda>c. col_name c = k) cs)"
  by (induction cs) auto

lemma col_new_row:
  assumes "has_column t k"
    and "map_of (zip insert_columns (ps @ replicate (5 - length ps) Null)) k = Some v"
  shows "col (new_row ps t) k = v"
proof -
  from assms(1) obtain c where c: "find (\<lambda>c. col_name c = k) (tbl_columns (decl t)) = Some c"
    by (cases "find (\<lambda>c. col_name c = k) (tbl_columns (decl t))")
       (auto simp: has_column_def column_names_def find_None_iff)
  then have "col_name c = k" by (auto simp: find_Some_iff)
  then show ?thesis
    using c assms(2) by (simp add: col_def new_row_def Let_def map_of_named new_value_def)
qed

lemma bootstrap_model_Inr:
  "bootstrap_model h rt d = Inr (u, d', cs) \<longleftrightarrow>
     (\<exists>n. insert_users (bootstrap_params rt) d = Inr (n, d')) \<and> cs = bootstrap_calls h rt"
  unfolding bootstrap_model_def Let_def bootstrap_params_def bootstrap_calls_def
  by (auto simp: then_model_Inr hash_model_def log_model_def run_model_Inr)

lemma init_model_no_users_table:
  "find_table ''users'' (create_all d) = None \<Longrightarrow> init_model h rt d = Inl (no_such_table ''users'')"
  by (simp add: init_model_def then_model_def schema_model_def get_model_count)

lemma init_model_steps:
  "init_model h rt d = Inr (u, d', cs) \<longleftrightarrow>
     (\<exists>u0 db cs_b cs_e.
        find_table ''users'' (create_all d) = Some u0 \<and>
        (if rows u0 = []
         then (\<exists>n. insert_users (bootstrap_params rt) (create_all d) = Inr (n, db)) \<and>
              cs_b = bootstrap_calls h rt
         else db = create_all d \<and> cs_b = []) \<and>
        ensure_model h db = Inr (u, d', cs_e) \<and>
        cs = [Exec_call h schema_script, Get_call h count_users []] @ cs_b @ cs_e)"
proof (cases "find_table ''users'' (create_all d)")
  case None
  then show ?thesis by (simp add: init_model_no_users_table)
next
  case (Some u0)
  show ?thesis
  proof (cases "rows u0 = []")
    case True
    have "init_model h rt d = Inr (u, d', cs) \<longleftrightarrow>
        (\<exists>db cs_b cs_e. bootstrap_model h rt (create_all d) = Inr ((), db, cs_b) \<and>
           ensure_model h db = Inr (u, d', cs_e) \<and>
           cs = [Exec_call h schema_script, Get_call h count_users []] @ cs_b @ cs_e)"
      using Some True
      by (auto simp: init_model_def then_model_Inr schema_model_def get_model_count no_users_def)
    then show ?thesis using Some True by (auto simp: bootstrap_model_Inr)
  next
    case False
    have "init_model h rt d = Inr (u, d', cs) \<longleftrightarrow>
        (\<exists>cs_e. ensure_model h (create_all d) = Inr (u, d', cs_e) \<and>
           cs = [Exec_call h schema_script, Get_call h count_users []] @ cs_e)"
      using Some False
      by (auto simp: init_model_def then_model_Inr schema_model_def get_model_count no_users_def
          return_model_def)
    then show ?thesis using Some False by auto
  qed
qed

lemma create_all_has_tables:
  "list_all (\<lambda>td. find_table (tbl_name td) (create_all d) \<noteq> None) schema_tables"
proof -
  have "find_table (tbl_name td) (create_all d) \<noteq> None" if "td \<in> set schema_tables" for td
  proof -
    from that have "find (\<lambda>x. tbl_name x = tbl_name td) schema_tables \<noteq> None"
      by (auto simp: find_None_iff)
    then show ?thesis by (auto simp: find_table_create_all split: option.splits)
  qed
  then show ?thesis by (simp add: list_all_iff)
qed

lemma create_all_migrated: "migrated d \<Longrightarrow> create_all d = d"
  by (simp add: migrated_def create_all_def fold_create_existing list_all_iff)

lemma init_model_migrated:
  assumes "init_model h rt d = Inr (u, d', cs)"
  shows "migrated d'"
proof -
  from assms obtain u0 db cs_b cs_e where
    u0: "find_table ''users'' (create_all d) = Some u0" and
    ins: "if rows u0 = []
         then (\<exists>n. insert_users (bootstrap_params rt) (create_all d) = Inr (n, db)) \<and>
              cs_b = bootstrap_calls h rt
         else db = create_all d \<and> cs_b = []" and
    ens: "ensure_model h db = Inr (u, d', cs_e)"
    unfolding init_model_steps by blast
  have tabs: "find_table x (create_all d) \<noteq> None \<Longrightarrow> find_table x db \<noteq> None" for x
    using ins by (auto simp: find_table_update_table dest!: insert_users_Inr split: if_splits)
  have users: "\<exists>t. find_table ''users'' db = Some t \<and> rows t \<noteq> []"
    using ins u0 by (auto simp: find_table_update_table dest!: insert_users_Inr split: if_splits)
  have "list_all (\<lambda>td. find_table (tbl_name td) d' \<noteq> None) schema_tables"
    using create_all_has_tables[of d] tabs ensure_model_keeps(2)[OF ens]
    by (simp add: list_all_iff)
  moreover have "find_table ''users'' d' = find_table ''users'' db"
    using ensure_model_keeps(1)[OF ens, of "''users''"] by simp
  ultimately show ?thesis
    using users ensure_model_ensured[OF ens] by (auto simp: migrated_def)
qed

lemma init_model_fixpoint:
  assumes "migrated d"
  shows "init_model h rt d = Inr ((), d, migrated_calls h)"
proof -
  from assms obtain u0 where u0: "find_table ''users'' d = Some u0" "rows u0 \<noteq> []"
    by (auto simp: migrated_def split: option.splits)
  have e: "ensure_model h d = Inr ((), d, ensured_calls h)"
    using assms by (simp add: migrated_def ensure_model_fixpoint)
  show ?thesis
    unfolding init_model_steps create_all_migrated[OF assms]
    using u0 e by (simp add: migrated_calls_def)
qed

lemma init_model_admin:
  assumes "init_model h rt d = Inr (u, d', cs)" and "users_of d = []"
  shows "\<exists>r. users_of d' = [r] \<and> col r ''is_admin'' = Integer 1 \<and>
           col r ''username'' = Text (or_else (env rt ''BOOTSTRAP_ADMIN_USERNAME'') ''admin'')"
    and "\<exists>cs_e. cs = [Exec_call h schema_script, Get_call h count_users []] @
                   bootstrap_calls h rt @ cs_e"
proof -
  from assms(1) obtain u0 db cs_b cs_e where
    u0: "find_table ''users'' (create_all d) = Some u0" and
    ins: "if rows u0 = []
         then (\<exists>n. insert_users (bootstrap_params rt) (create_all d) = Inr (n, db)) \<and>
              cs_b = bootstrap_calls h rt
         else db = create_all d \<and> cs_b = []" and
    ens: "ensure_model h db = Inr (u, d', cs_e)" and
    cs: "cs = [Exec_call h schema_script, Get_call h count_users []] @ cs_b @ cs_e"
    unfolding init_model_steps by blast
  have empty: "rows u0 = []"
    using u0 assms(2)
    by (auto simp: users_of_def find_table_create_all find_schema_tables split: option.splits)
  with ins obtain n where i: "insert_users (bootstrap_params rt) (create_all d) = Inr (n, db)"
    and cb: "cs_b = bootstrap_calls h rt" by auto
  from insert_users_Inr[OF i] u0 have cols: "\<forall>c \<in> set insert_columns. has_column u0 c"
    and db: "db = update_table ''users''
                  (\<lambda>t'. t'\<lparr>rows := rows t' @ [new_row (bootstrap_params rt) u0],
                           seq := Suc (seq t')\<rparr>) (create_all d)"
    by auto
  let ?r = "new_row (bootstrap_params rt) u0"
  have "find_table ''users'' db = Some (u0\<lparr>rows := rows u0 @ [?r], seq := Suc (seq u0)\<rparr>)"
    using u0 by (simp add: db find_table_update_table)
  then have "users_of d' = [?r]"
    using ensure_model_keeps(1)[OF ens, of "''users''"] empty by (simp add: users_of_def)
  moreover have "col ?r ''is_admin'' = Integer 1"
    using cols by (intro col_new_row) (simp_all add: insert_columns_def bootstrap_params_def)
  moreover have "col ?r ''username'' = Text (or_else (env rt ''BOOTSTRAP_ADMIN_USERNAME'') ''admin'')"
    using cols by (intro col_new_row) (simp_all add: insert_columns_def bootstrap_params_def)
  ultimately show "\<exists>r. users_of d' = [r] \<and> col r ''is_admin'' = Integer 1 \<and>
           col r ''username'' = Text (or_else (env rt ''BOOTSTRAP_ADMIN_USERNAME'') ''admin'')"
    by blast
  show "\<exists>cs_e. cs = [Exec_call h schema_script, Get_call h count_users []] @
                   bootstrap_calls h rt @ cs_e"
    using cs cb by blast
qed

subsection \<open>From the file back to the module\<close>

lemma getDb_sqlite:
  "\<exists>h s1. getDb sqlite s = (Inr (wrapDb (dbPath s) (Database_object sqlite h)), s1) \<and>
     dbInstance s1 = Some h \<and> dbPath s1 = dbPath s \<and> disk (driver s1) = disk (driver s) \<and>
     (dbInstance s = None \<or> dbInstance s = Some h) \<and>
     calls s1 = calls s @
       (if dbInstance s = None
        then [New_Database (dbPath s), Exec_without_callback h pragma_foreign_keys] else []) \<and>
     (dbInstance s \<noteq> None \<longrightarrow> s1 = s)"
proof (cases "dbInstance s")
  case None
  have "disk (snd (sqlite_exec h pragma_foreign_keys d)) = disk d" for h d
    by (auto simp: sqlite_exec_def pragma_foreign_keys_def step_def split: sum.splits)
  then show ?thesis
    using None
    by (simp add: getDb_def sqlite_def sqlite_new_def case_prod_beta)
next
  case (Some h)
  then show ?thesis by (simp add: getDb_def)
qed

lemma after_getDb_not_connected:
  assumes "\<not> connected h (driver s)"
  shows "fst (await (exec (wrapDb p (Database_object sqlite h)) schema_script) k s) = Inl (Raw misuse)"
  using assms by (simp add: await_def exec_sqlite exec_all_schema_script)

lemma initDb_sqlite_Inr:
  assumes "initDb sqlite rt s = (Inr (), s')"
  shows "\<exists>h cs. dbInstance s' = Some h \<and> connected h (driver s') \<and> dbPath s' = dbPath s \<and>
           (dbInstance s = None \<or> dbInstance s = Some h) \<and>
           init_model h rt (disk (driver s)) = Inr ((), disk (driver s'), cs) \<and>
           calls s' = calls s @
             (if dbInstance s = None
              then [New_Database (dbPath s), Exec_without_callback h pragma_foreign_keys]
              else []) @ cs"
proof -
  from getDb_sqlite[of s] obtain h s1 where
    g: "getDb sqlite s = (Inr (wrapDb (dbPath s) (Database_object sqlite h)), s1)" and
    i1: "dbInstance s1 = Some h" and p1: "dbPath s1 = dbPath s" and
    d1: "disk (driver s1) = disk (driver s)" and
    i0: "dbInstance s = None \<or> dbInstance s = Some h" and
    c1: "calls s1 = calls s @
       (if dbInstance s = None
        then [New_Database (dbPath s), Exec_without_callback h pragma_foreign_keys] else [])"
    by blast
  let ?db = "wrapDb (dbPath s) (Database_object sqlite h)"
  let ?rest = "await (exec ?db schema_script) (\<lambda>_.
      await (get ?db count_users []) (\<lambda>count.
      await (if no_users count then bootstrap_admin rt ?db else resolve ()) (\<lambda>_.
      ensurePointsLedgerSchema ?db)))"
  have r: "?rest s1 = (Inr (), s')"
    using assms g by (simp add: initDb_def await_def)
  have conn: "connected h (driver s1)"
  proof (rule ccontr)
    assume "\<not> connected h (driver s1)"
    then have "fst (?rest s1) = Inl (Raw misuse)" by (rule after_getDb_not_connected)
    with r show False by simp
  qed
  from refines_after_getDb[of h "dbPath s" rt] conn r
  have "connected h (driver s') \<and> dbInstance s' = dbInstance s1 \<and> dbPath s' = dbPath s1 \<and>
        (case init_model h rt (disk (driver s1)) of
           Inl e \<Rightarrow> False
         | Inr (b, d', cs) \<Rightarrow> disk (driver s') = d' \<and> calls s' = calls s1 @ cs)"
    unfolding refines_def by (auto split: sum.splits)
  then show ?thesis
    using i1 p1 d1 i0 c1 by (auto split: sum.splits)
qed

lemma initDb_sqlite_ok:
  assumes "dbInstance s = Some h" and "connected h (driver s)"
    and "init_model h rt (disk (driver s)) = Inr ((), d', cs)"
  shows "\<exists>s'. initDb sqlite rt s = (Inr (), s') \<and> disk (driver s') = d' \<and>
           calls s' = calls s @ cs \<and> connected h (driver s') \<and> dbInstance s' = Some h \<and>
           dbPath s' = dbPath s"
proof -
  let ?db = "wrapDb (dbPath s) (Database_object sqlite h)"
  let ?rest = "await (exec ?db schema_script) (\<lambda>_.
      await (get ?db count_users []) (\<lambda>count.
      await (if no_users count then bootstrap_admin rt ?db else resolve ()) (\<lambda>_.
      ensurePointsLedgerSchema ?db)))"
  have i: "initDb sqlite rt s = ?rest s"
    using assms(1) by (simp add: initDb_def await_def getDb_def)
  obtain r s' where rs: "?rest s = (r, s')" by (cases "?rest s")
  from refines_after_getDb[of h "dbPath s" rt] assms(2,3) rs
  have "connected h (driver s') \<and> dbInstance s' = dbInstance s \<and> dbPath s' = dbPath s \<and>
        r = Inr () \<and> disk (driver s') = d' \<and> calls s' = calls s @ cs"
    unfolding refines_def by auto
  then show ?thesis using i rs assms(1) by simp
qed

section \<open>Calling \<open>initDb\<close> twice\<close>

text \<open>
  Claim C1. After a call of \<open>initDb\<close> that completed, a second call (with any runtime)
  completes too and leaves the database file as it was: no table, column, row or index is
  added. Its calls are exactly the schema script, the user count, the column inspection,
  the backfill and the two index statements: no \<^verbatim>\<open>INSERT\<close> and no
  \<^verbatim>\<open>ALTER TABLE\<close>. When the file had no user before the first call, it holds exactly
  one user after the second, and that user is an admin.
\<close>

theorem initDb_twice_idempotent:
  assumes "initDb sqlite rt s = (Inr (), s1)"
  shows "\<exists>h s2. dbInstance s1 = Some h \<and>
           initDb sqlite rt' s1 = (Inr (), s2) \<and>
           disk (driver s2) = disk (driver s1) \<and>
           calls s2 = calls s1 @
             [Exec_call h schema_script,
              Get_call h count_users [],
              All_call h table_info_points_ledger [],
              Run_call h backfill_series_id [],
              Run_call h index_series_user [],
              Run_call h index_match [],
              Console_log ''[Migration] points_ledger schema ensured and backfilled.''] \<and>
           (users_of (disk (driver s)) = [] \<longrightarrow>
              (\<exists>r. users_of (disk (driver s2)) = [r] \<and> col r ''is_admin'' = Integer 1))"
proof -
  from initDb_sqlite_Inr[OF assms] obtain h cs where
    i1: "dbInstance s1 = Some h" and c1: "connected h (driver s1)" and
    m: "init_model h rt (disk (driver s)) = Inr ((), disk (driver s1), cs)"
    by blast
  have again: "init_model h rt' (disk (driver s1)) = Inr ((), disk (driver s1), migrated_calls h)"
    using init_model_migrated[OF m] by (rule init_model_fixpoint)
  from initDb_sqlite_ok[OF i1 c1 again] obtain s2 where
    s2: "initDb sqlite rt' s1 = (Inr (), s2)" and d2: "disk (driver s2) = disk (driver s1)"
    and cs2: "calls s2 = calls s1 @ migrated_calls h"
    by blast
  have "\<exists>r. users_of (disk (driver s2)) = [r] \<and> col r ''is_admin'' = Integer 1"
    if "users_of (disk (driver s)) = []"
    using init_model_admin(1)[OF m that] d2 by auto
  then show ?thesis
    using i1 s2 d2 cs2 by (auto simp: migrated_calls_def ensured_calls_def)
qed

theorem initDb_twice_idempotent_witness:
  "fst (initDb sqlite rt0 fresh) = Inr () \<and>
   users_of (disk (driver fresh)) = [] \<and>
   fst (initDb sqlite rt0 (snd (initDb sqlite rt0 fresh))) = Inr () \<and>
   disk (driver (snd (initDb sqlite rt0 (snd (initDb sqlite rt0 fresh)))))
     = disk (driver (snd (initDb sqlite rt0 fresh))) \<and>
   (\<exists>r. users_of (disk (driver (snd (initDb sqlite rt0 (snd (initDb sqlite rt0 fresh))))))
           = [r] \<and> col r ''is_admin'' = Integer 1)"
proof -
  have ok: "fst (initDb sqlite rt0 fresh) = Inr ()" by code_simp
  then have first: "initDb sqlite rt0 fresh = (Inr (), snd (initDb sqlite rt0 fresh))"
    by (metis prod.collapse)
  have none: "users_of (disk (driver fresh)) = []"
    by (simp add: users_of_def fresh_def find_table_def)
  from initDb_twice_idempotent[OF first, of rt0] none ok show ?thesis
    by auto
qed

section \<open>After \<^verbatim>\<open>close\<close>\<close>

lemma step_keeps_closed:
  assumes "\<not> connected h d" and "step h' st ps d = Inr (rs, d')"
  shows "\<not> connected h d'"
proof -
  from assms(2) obtain c dk where
    c': "connected h' d" and
    e: "execute st ps (connections d ! h') (disk d) = Inr (rs, c, dk)" and
    d': "d' = d\<lparr>connections := (connections d)[h' := c], disk := dk\<rparr>"
    unfolding step_Inr by blast
  from assms(1) c' have "h \<noteq> h'" by auto
  then show ?thesis using assms(1) by (simp add: d' connected_def)
qed

lemma exec_all_keeps_closed:
  "\<not> connected h d \<Longrightarrow> \<not> connected h (snd (exec_all h' sts d))"
proof (induction sts arbitrary: d)
  case Nil
  then show ?case by simp
next
  case (Cons st sts)
  show ?case
  proof (cases "step h' st [] d")
    case (Inl e)
    then show ?thesis using Cons.prems by simp
  next
    case (Inr x)
    obtain rs d1 where x: "x = (rs, d1)" by (cases x)
    from step_keeps_closed[OF Cons.prems] Inr x have "\<not> connected h d1" by simp
    from Cons.IH[OF this] show ?thesis using Inr x by simp
  qed
qed

lemma closed_invariant:
  "module_invariant sqlite (\<lambda>s. dbInstance s \<noteq> None \<and> \<not> connected h (driver s))"
proof -
  have r: "\<not> connected h (driver s) \<Longrightarrow>
      \<not> connected h (driver (snd (run (wrapDb p (Database_object sqlite h')) q ps s)))"
    for s :: "sqlite_state state" and p h' q ps
    by (auto simp: run_sqlite split: sum.splits dest: step_keeps_closed)
  have g: "\<not> connected h (driver s) \<Longrightarrow>
      \<not> connected h (driver (snd (get (wrapDb p (Database_object sqlite h')) q ps s)))"
    for s :: "sqlite_state state" and p h' q ps
    by (auto simp: get_sqlite split: sum.splits dest: step_keeps_closed)
  have a: "\<not> connected h (driver s) \<Longrightarrow>
      \<not> connected h (driver (snd (all (wrapDb p (Database_object sqlite h')) q ps s)))"
    for s :: "sqlite_state state" and p h' q ps
    by (auto simp: all_sqlite split: sum.splits dest: step_keeps_closed)
  have x: "\<not> connected h (driver s) \<Longrightarrow>
      \<not> connected h (driver (snd (exec (wrapDb p (Database_object sqlite h')) q s)))"
    for s :: "sqlite_state state" and p h' q
    using exec_all_keeps_closed[of h "driver s" h' "statements q"]
    by (auto simp: exec_sqlite split: prod.splits option.splits)
  have c: "\<not> connected h (driver s) \<Longrightarrow>
      \<not> connected h (driver (snd (close (wrapDb p (Database_object sqlite h')) s)))"
    for s :: "sqlite_state state" and p h'
    by (auto simp: close_sqlite connected_def nth_list_update)
  have i: "dbInstance (snd (run (wrapDb p (Database_object sqlite h')) q ps s)) = dbInstance s"
    "dbInstance (snd (get (wrapDb p (Database_object sqlite h')) q ps s)) = dbInstance s"
    "dbInstance (snd (all (wrapDb p (Database_object sqlite h')) q ps s)) = dbInstance s"
    "dbInstance (snd (exec (wrapDb p (Database_object sqlite h')) q s)) = dbInstance s"
    "dbInstance (snd (close (wrapDb p (Database_object sqlite h')) s)) = dbInstance s"
    for s :: "sqlite_state state" and p h' q ps
    by (auto simp: run_sqlite get_sqlite all_sqlite exec_sqlite close_sqlite
        split: sum.splits prod.splits option.splits)
  show ?thesis
    unfolding module_invariant_def preserves_def
    using r g a x c i by (auto simp: getDb_def)
qed

text \<open>
  Claim C10. \<^verbatim>\<open>close\<close> on the wrapper leaves \<open>dbInstance\<close> as it is. After it, whatever
  a client does, \<open>getDb\<close> returns the same wrapper without changing anything, no
  \<^verbatim>\<open>new sqlite3.Database\<close> is ever issued again, and the connection behind the wrapper
  is not open.
\<close>

theorem close_keeps_singleton:
  assumes "getDb sqlite s = (Inr db, s1)"
  shows "dbInstance (snd (close db s1)) = dbInstance s1 \<and>
         (\<forall>acts.
            getDb sqlite (performs sqlite acts (snd (close db s1)))
              = (Inr db, performs sqlite acts (snd (close db s1))) \<and>
            opened (calls (performs sqlite acts (snd (close db s1)))) = opened (calls s1) \<and>
            \<not> connected (handle (raw db)) (driver (performs sqlite acts (snd (close db s1)))))"
proof -
  from getDb_sqlite[of s] assms obtain h where
    db: "db = wrapDb (dbPath s) (Database_object sqlite h)" and
    i1: "dbInstance s1 = Some h" and p1: "dbPath s1 = dbPath s"
    by auto
  let ?s2 = "snd (close db s1)"
  have hd: "handle (raw db) = h" by (simp add: db wrapDb_def Database_object_def)
  have i2: "dbInstance ?s2 = Some h" and p2: "dbPath ?s2 = dbPath s"
    and o2: "opened (calls ?s2) = opened (calls s1)"
    and c2: "\<not> connected h (driver ?s2)"
    using i1 p1 by (auto simp: db close_sqlite connected_def)
  have vars: "module_vars (performs sqlite acts ?s2) = module_vars ?s2" for acts
    by (rule module_vars_performs) (simp add: i2)
  have closed: "\<not> connected h (driver (performs sqlite acts ?s2))" for acts
    using invariant_performs[OF closed_invariant, of ?s2 h acts] i2 c2 by simp
  have again: "getDb sqlite (performs sqlite acts ?s2) = (Inr db, performs sqlite acts ?s2)"
    for acts
    using vars[of acts] i2 p2 by (simp add: getDb_def module_vars_def db)
  have count: "opened (calls (performs sqlite acts ?s2)) = opened (calls s1)" for acts
    using vars[of acts] o2 by (simp add: module_vars_def)
  show ?thesis using i1 i2 again count closed hd by simp
qed

theorem close_keeps_singleton_witness:
  "fst (getDb sqlite fresh) = Inr (wrapDb ''data/db.sqlite'' (Database_object sqlite 0)) \<and>
   fst (getDb sqlite
          (performs sqlite [InitDb rt0, GetDb]
             (snd (close (wrapDb ''data/db.sqlite'' (Database_object sqlite 0))
                     (snd (getDb sqlite fresh))))))
     = Inr (wrapDb ''data/db.sqlite'' (Database_object sqlite 0)) \<and>
   \<not> connected 0
       (driver (performs sqlite [InitDb rt0, GetDb]
                  (snd (close (wrapDb ''data/db.sqlite'' (Database_object sqlite 0))
                          (snd (getDb sqlite fresh))))))"
proof -
  have g: "getDb sqlite fresh =
      (Inr (wrapDb ''data/db.sqlite'' (Database_object sqlite 0)), snd (getDb sqlite fresh))"
    by (simp add: getDb_fresh)
  have hd: "handle (raw (wrapDb ''data/db.sqlite'' (Database_object sqlite 0)
        :: (sql, sqlite_state state) wrapped)) = 0"
    by (simp add: wrapDb_def Database_object_def)
  from close_keeps_singleton[OF g] hd show ?thesis
    by (simp add: getDb_fresh)
qed

section \<open>The order of the steps of \<open>initDb\<close>\<close>

lemma users_of_create_all: "users_of (create_all d) = users_of d"
  by (auto simp: users_of_def find_table_create_all find_schema_tables split: option.splits)

lemma init_model_calls:
  assumes "init_model h rt d = Inr (u, d', cs)"
  shows "\<exists>db cs_e. ensure_model h db = Inr (u, d', cs_e) \<and>
           cs = [Exec_call h schema_script, Get_call h count_users []] @
                (if users_of d = [] then bootstrap_calls h rt else []) @ cs_e"
proof -
  from assms obtain u0 db cs_b cs_e where
    u0: "find_table ''users'' (create_all d) = Some u0" and
    ins: "if rows u0 = []
         then (\<exists>n. insert_users (bootstrap_params rt) (create_all d) = Inr (n, db)) \<and>
              cs_b = bootstrap_calls h rt
         else db = create_all d \<and> cs_b = []" and
    ens: "ensure_model h db = Inr (u, d', cs_e)" and
    cs: "cs = [Exec_call h schema_script, Get_call h count_users []] @ cs_b @ cs_e"
    unfolding init_model_steps by blast
  have "users_of d = rows u0"
    using u0 users_of_create_all[of d] by (simp add: users_of_def)
  then have "cs_b = (if users_of d = [] then bootstrap_calls h rt else [])"
    using ins by (auto split: if_splits)
  then show ?thesis using ens cs by blast
qed

lemma ensure_model_calls:
  assumes "ensure_model h d = Inr (u, d', cs)"
  shows "cs = All_call h table_info_points_ledger [] #
           (if (case find_table ''points_ledger'' d of None \<Rightarrow> False
                | Some t \<Rightarrow> has_column t ''series_id'') then []
            else [Run_call h add_series_id [],
                  Console_log ''[Migration] Added points_ledger.series_id'']) @
           (if (case find_table ''points_ledger'' d of None \<Rightarrow> False
                | Some t \<Rightarrow> has_column t ''match_id'') then []
            else [Run_call h add_match_id [],
                  Console_log ''[Migration] Added points_ledger.match_id'']) @
           [Run_call h backfill_series_id [],
            Run_call h index_series_user [],
            Run_call h index_match [],
            Console_log ''[Migration] points_ledger schema ensured and backfilled.'']"
  using assms unfolding ensure_model_def Let_def
  by (auto simp: then_model_Inr all_model_table_info run_model_Inr log_model_def return_model_def
      includes_table_info split: if_splits)

text \<open>
  Claim C6. The calls of a completed \<open>initDb\<close>, in order: the connection is opened if
  there was none; one \<^verbatim>\<open>exec\<close> whose text enables foreign keys and then creates the six
  tables if absent; the user count; when there is no user, the bcrypt hash of the configured
  or default password with cost 10, the insert of the admin with the configured or default
  name, the hash, the display name, 1 and the time, and a log line; then the migration:
  column inspection, the column additions it needs, backfill, two indexes, log line.
\<close>

theorem initDb_order:
  assumes "initDb sqlite rt s = (Inr (), s')"
  shows "\<exists>h add_series add_match.
           dbInstance s' = Some h \<and>
           calls s' = calls s @
             (if dbInstance s = None
              then [New_Database (dbPath s), Exec_without_callback h pragma_foreign_keys]
              else []) @
             [Exec_call h (Sql PRAGMA_foreign_keys_ON
                 [CREATE_TABLE_IF_NOT_EXISTS users_table,
                  CREATE_TABLE_IF_NOT_EXISTS series_table,
                  CREATE_TABLE_IF_NOT_EXISTS series_members_table,
                  CREATE_TABLE_IF_NOT_EXISTS matches_table,
                  CREATE_TABLE_IF_NOT_EXISTS predictions_table,
                  CREATE_TABLE_IF_NOT_EXISTS points_ledger_table]),
              Get_call h count_users []] @
             (if users_of (disk (driver s)) = []
              then [Bcrypt_hash (or_else (env rt ''BOOTSTRAP_ADMIN_PASSWORD'') ''Admin@123'') 10,
                    Run_call h insert_user
                      [Text (or_else (env rt ''BOOTSTRAP_ADMIN_USERNAME'') ''admin''),
                       Text (bcrypt_hash rt
                               (or_else (env rt ''BOOTSTRAP_ADMIN_PASSWORD'') ''Admin@123'') 10),
                       Text (or_else (env rt ''BOOTSTRAP_ADMIN_DISPLAY_NAME'') ''Admin''),
                       Integer 1,
                       Text (now rt)],
                    Console_log (''Bootstrapped admin user: '' @
                                 or_else (env rt ''BOOTSTRAP_ADMIN_USERNAME'') ''admin'')]
              else []) @
             [All_call h table_info_points_ledger []] @
             (if add_series
              then [Run_call h add_series_id [],
                    Console_log ''[Migration] Added points_ledger.series_id'']
              else []) @
             (if add_match
              then [Run_call h add_match_id [],
                    Console_log ''[Migration] Added points_ledger.match_id'']
              else []) @
             [Run_call h backfill_series_id [],
              Run_call h index_series_user [],
              Run_call h index_match [],
              Console_log ''[Migration] points_ledger schema ensured and backfilled.'']"
proof -
  from initDb_sqlite_Inr[OF assms] obtain h cs where
    i: "dbInstance s' = Some h" and
    m: "init_model h rt (disk (driver s)) = Inr ((), disk (driver s'), cs)" and
    c: "calls s' = calls s @
             (if dbInstance s = None
              then [New_Database (dbPath s), Exec_without_callback h pragma_foreign_keys]
              else []) @ cs"
    by blast
  from init_model_calls[OF m] obtain db cs_e where
    e: "ensure_model h db = Inr ((), disk (driver s'), cs_e)" and
    cs: "cs = [Exec_call h schema_script, Get_call h count_users []] @
                (if users_of (disk (driver s)) = [] then bootstrap_calls h rt else []) @ cs_e"
    by blast
  let ?a = "\<not> (case find_table ''points_ledger'' db of None \<Rightarrow> False
                | Some t \<Rightarrow> has_column t ''series_id'')"
  let ?b = "\<not> (case find_table ''points_ledger'' db of None \<Rightarrow> False
                | Some t \<Rightarrow> has_column t ''match_id'')"
  show ?thesis
    using i c cs ensure_model_calls[OF e]
    by (intro exI[of _ h] exI[of _ ?a] exI[of _ ?b])
       (simp add: schema_script_def schema_tables_def bootstrap_calls_def bootstrap_params_def)
qed

theorem initDb_order_witness:
  "fst (initDb sqlite rt0 fresh) = Inr () \<and>
   calls (snd (initDb sqlite rt0 fresh)) =
     [New_Database ''data/db.sqlite'',
      Exec_without_callback 0 pragma_foreign_keys,
      Exec_call 0 schema_script,
      Get_call 0 count_users [],
      Bcrypt_hash ''Admin@123'' 10,
      Run_call 0 insert_user
        [Text ''admin'', Text ''$2b$10$Admin@123'', Text ''Admin'', Integer 1,
         Text ''2024-01-01T00:00:00.000Z''],
      Console_log ''Bootstrapped admin user: admin'',
      All_call 0 table_info_points_ledger [],
      Run_call 0 backfill_series_id [],
      Run_call 0 index_series_user [],
      Run_call 0 index_match [],
      Console_log ''[Migration] points_ledger schema ensured and backfilled.'']"
proof -
  have ok: "fst (initDb sqlite rt0 fresh) = Inr ()" by code_simp
  then have first: "initDb sqlite rt0 fresh = (Inr (), snd (initDb sqlite rt0 fresh))"
    by (metis prod.collapse)
  have none: "users_of (disk (driver fresh)) = []" "dbInstance fresh = None"
    "dbPath fresh = ''data/db.sqlite''" "calls fresh = []"
    by (simp_all add: users_of_def fresh_def find_table_def)
  have h: "dbInstance (snd (initDb sqlite rt0 fresh)) = Some 0" by code_simp
  have n: "length (calls (snd (initDb sqlite rt0 fresh))) = 12" by code_simp
  from initDb_order[OF first] obtain h' a b where
    "dbInstance (snd (initDb sqlite rt0 fresh)) = Some h'" and
    c: "calls (snd (initDb sqlite rt0 fresh)) =
          [New_Database ''data/db.sqlite'', Exec_without_callback h' pragma_foreign_keys,
           Exec_call h' schema_script, Get_call h' count_users [],
           Bcrypt_hash ''Admin@123'' 10,
           Run_call h' insert_user
             [Text ''admin'', Text ''$2b$10$Admin@123'', Text ''Admin'', Integer 1,
              Text ''2024-01-01T00:00:00.000Z''],
           Console_log ''Bootstrapped admin user: admin'',
           All_call h' table_info_points_ledger []] @
          (if a then [Run_call h' add_series_id [],
                      Console_log ''[Migration] Added points_ledger.series_id''] else []) @
          (if b then [Run_call h' add_match_id [],
                      Console_log ''[Migration] Added points_ledger.match_id''] else []) @
          [Run_call h' backfill_series_id [], Run_call h' index_series_user [],
           Run_call h' index_match [],
           Console_log ''[Migration] points_ledger schema ensured and backfilled.'']"
    unfolding none
    by (auto simp: rt0_def or_else_def schema_script_def schema_tables_def)
  with h have "h' = 0" by simp
  moreover from n c have "\<not> a \<and> \<not> b" by (auto split: if_splits)
  ultimately show ?thesis using ok c by simp
qed

section \<open>The ledger the module creates\<close>

lemma add_column_existing:
  "find_table n d = Some t \<Longrightarrow> has_column t c \<Longrightarrow> add_column n c d \<noteq> Inr d'"
  by (simp add: add_column_def)

lemma ensure_model_same_columns:
  assumes e: "ensure_model h d = Inr (u, d', cs)"
    and t: "find_table ''points_ledger'' d = Some t"
    and cols: "has_column t ''series_id''" "has_column t ''match_id''"
  shows "\<exists>t'. find_table ''points_ledger'' d' = Some t' \<and> decl t' = decl t"
    and "cs = ensured_calls h"
proof -
  from ensure_model_steps[OF e] obtain d1 d2 d3 d4 k where
    a1: "d1 = d \<or> add_column ''points_ledger'' ''series_id'' d = Inr d1" and
    a2: "d2 = d1 \<or> add_column ''points_ledger'' ''match_id'' d1 = Inr d2" and
    u: "update_series_id d2 = Inr (k, d3)" and
    i1: "create_index ''idx_points_ledger_series_user'' ''points_ledger''
             [''series_id'', ''user_id''] d3 = Inr d4" and
    i2: "create_index ''idx_points_ledger_match'' ''points_ledger'' [''match_id''] d4 = Inr d'"
    by blast
  have "d1 = d" using a1 add_column_existing[OF t cols(1)] by blast
  then have "d2 = d" using a2 add_column_existing[OF t cols(2)] by blast
  with u t have "\<exists>t'. find_table ''points_ledger'' d3 = Some t' \<and> decl t' = decl t"
    by (auto simp: update_series_id_Inr find_table_update_table)
  then show "\<exists>t'. find_table ''points_ledger'' d' = Some t' \<and> decl t' = decl t"
    using create_index_keeps(1)[OF i1] create_index_keeps(1)[OF i2] by simp
  show "cs = ensured_calls h"
    using ensure_model_calls[OF e] t cols by (simp add: ensured_calls_def)
qed

text \<open>
  Claim C9. When the file had no \<^verbatim>\<open>points_ledger\<close> table before a completed \<open>initDb\<close>,
  the table afterwards is the one the module declares: \<^verbatim>\<open>user_id\<close>, \<^verbatim>\<open>match_id\<close> and
  \<^verbatim>\<open>series_id\<close> are \<^verbatim>\<open>NOT NULL\<close>, both inspected columns are present, and the call
  issued no \<^verbatim>\<open>ALTER TABLE\<close>. So a nullable \<^verbatim>\<open>series_id\<close> or \<^verbatim>\<open>match_id\<close> after
  \<open>initDb\<close> means the table was there before.
\<close>

theorem module_ledger_not_null:
  assumes "initDb sqlite rt s = (Inr (), s')"
    and "find_table ''points_ledger'' (disk (driver s)) = None"
  shows "\<exists>h t.
           dbInstance s' = Some h \<and>
           find_table ''points_ledger'' (disk (driver s')) = Some t \<and>
           decl t = points_ledger_table \<and>
           is_notnull t ''user_id'' \<and> is_notnull t ''match_id'' \<and> is_notnull t ''series_id'' \<and>
           has_column t ''series_id'' \<and> has_column t ''match_id'' \<and>
           Run_call h add_series_id [] \<notin> set (drop (length (calls s)) (calls s')) \<and>
           Run_call h add_match_id [] \<notin> set (drop (length (calls s)) (calls s'))"
proof -
  from initDb_sqlite_Inr[OF assms(1)] obtain h cs where
    i: "dbInstance s' = Some h" and
    m: "init_model h rt (disk (driver s)) = Inr ((), disk (driver s'), cs)" and
    c: "calls s' = calls s @
             (if dbInstance s = None
              then [New_Database (dbPath s), Exec_without_callback h pragma_foreign_keys]
              else []) @ cs"
    by blast
  let ?d = "disk (driver s)"
  let ?t = "\<lparr>decl = points_ledger_table, rows = [], seq = 0\<rparr>"
  from m obtain u0 db cs_b cs_e where
    u0: "find_table ''users'' (create_all ?d) = Some u0" and
    ins: "if rows u0 = []
         then (\<exists>n. insert_users (bootstrap_params rt) (create_all ?d) = Inr (n, db)) \<and>
              cs_b = bootstrap_calls h rt
         else db = create_all ?d \<and> cs_b = []" and
    e: "ensure_model h db = Inr ((), disk (driver s'), cs_e)" and
    cs: "cs = [Exec_call h schema_script, Get_call h count_users []] @ cs_b @ cs_e"
    unfolding init_model_steps by blast
  have "find_table ''points_ledger'' (create_all ?d) = Some ?t"
    using assms(2) by (simp add: find_table_create_all find_schema_tables)
  then have t: "find_table ''points_ledger'' db = Some ?t"
    using ins by (auto simp: find_table_update_table dest!: insert_users_Inr split: if_splits)
  have cols: "has_column ?t ''series_id''" "has_column ?t ''match_id''"
    by (simp_all add: has_column_def column_names_def points_ledger_table_def
        pk_autoincrement_def not_null_def)
  from ensure_model_same_columns[OF e t cols] obtain t' where
    t': "find_table ''points_ledger'' (disk (driver s')) = Some t'"
    and d': "decl t' = points_ledger_table" and ce: "cs_e = ensured_calls h"
    by auto
  have nn: "is_notnull t' ''user_id''" "is_notnull t' ''match_id''" "is_notnull t' ''series_id''"
    "has_column t' ''series_id''" "has_column t' ''match_id''"
    using d' by (simp_all add: is_notnull_def find_column_def has_column_def column_names_def
        points_ledger_table_def pk_autoincrement_def not_null_def)
  have cb: "cs_b = bootstrap_calls h rt \<or> cs_b = []"
    using ins by (auto split: if_splits)
  have "Run_call h add_series_id [] \<notin> set (drop (length (calls s)) (calls s'))"
    "Run_call h add_match_id [] \<notin> set (drop (length (calls s)) (calls s'))"
    using c cs ce cb
    by (auto simp: ensured_calls_def bootstrap_calls_def add_series_id_def add_match_id_def
        insert_user_def backfill_series_id_def index_series_user_def index_match_def)
  then show ?thesis using i t' d' nn by blast
qed

theorem module_ledger_not_null_witness:
  "fst (initDb sqlite rt0 fresh) = Inr () \<and>
   find_table ''points_ledger'' (disk (driver fresh)) = None \<and>
   map_option decl (find_table ''points_ledger'' (disk (driver (snd (initDb sqlite rt0 fresh)))))
     = Some points_ledger_table"
proof -
  have ok: "fst (initDb sqlite rt0 fresh) = Inr ()" by code_simp
  then have first: "initDb sqlite rt0 fresh = (Inr (), snd (initDb sqlite rt0 fresh))"
    by (metis prod.collapse)
  have none: "find_table ''points_ledger'' (disk (driver fresh)) = None"
    by (simp add: fresh_def find_table_def)
  from module_ledger_not_null[OF first none] ok none show ?thesis by auto
qed

section \<open>The backfill\<close>






section \<open>The migration of an earlier ledger\<close>












end
